theory Spec2Isabelle
  imports Complex_Main "HOL-Library.AList" "HOL-Library.Char_ord" "HOL-Library.List_Lexorder"
begin

section \<open>WattWise: device ledger, log store, daily aggregator, leaderboard\<close>

text \<open>
  A shallow embedding of the accounting core of \<^verbatim>\<open>src/App.py\<close>. Conventions:
  \<^item> a Python \<^verbatim>\<open>float\<close> is an exact \<^typ>\<open>real\<close>: rounding is not modelled;
  \<^item> a \<^verbatim>\<open>datetime\<close> is the number of microseconds since the midnight that starts
    proleptic Gregorian ordinal 0, so that day \<open>d\<close> (Python's \<^verbatim>\<open>date.toordinal()\<close>)
    covers \<open>[d * 86400000000, (d + 1) * 86400000000)\<close>; a \<^verbatim>\<open>date\<close> is its ordinal;
  \<^item> every call of \<^verbatim>\<open>datetime.now()\<close> is an explicit argument;
  \<^item> a text file is the string Python reads from it and writes to it, with characters
    below 256; a missing file is \<open>None\<close>. Encodings and the translation of carriage
    returns by text mode are below the model;
  \<^item> \<^verbatim>\<open>repr\<close> of a float (used by the f-strings) and \<^verbatim>\<open>float()\<close> of a string are
    parameters \<open>repr\<close> and \<open>pfloat\<close> (\<open>None\<close> where \<^verbatim>\<open>float()\<close> raises ValueError).
\<close>

subsection \<open>Dates and times\<close>

type_synonym datetime = int
type_synonym date = int

definition us_per_day :: int where
  "us_per_day = 86400000000"

text \<open>\<^verbatim>\<open>dt.date()\<close>, \<^verbatim>\<open>datetime.combine(d, t)\<close>, \<^verbatim>\<open>time.min\<close> and \<^verbatim>\<open>time.max\<close>
  (23:59:59.999999).\<close>

definition date_of :: "datetime \<Rightarrow> date" where
  "date_of t = t div us_per_day"

definition combine :: "date \<Rightarrow> int \<Rightarrow> datetime" where
  "combine d tm = d * us_per_day + tm"

definition time_min :: int where
  "time_min = 0"

definition time_max :: int where
  "time_max = us_per_day - 1"

text \<open>\<^verbatim>\<open>(a - b).total_seconds()\<close>, applied to the difference \<open>a - b\<close> in microseconds.\<close>

definition total_seconds :: "int \<Rightarrow> real" where
  "total_seconds delta = real_of_int delta / 1000000"

text \<open>The ordinal of a calendar date, as CPython's \<^verbatim>\<open>datetime._ymd2ord\<close> computes it.\<close>

definition is_leap :: "int \<Rightarrow> bool" where
  "is_leap y = (y mod 4 = 0 \<and> (y mod 100 \<noteq> 0 \<or> y mod 400 = 0))"

definition days_before_year :: "int \<Rightarrow> int" where
  "days_before_year year =
     (let y = year - 1 in y * 365 + y div 4 - y div 100 + y div 400)"

definition days_before_month :: "int \<Rightarrow> int \<Rightarrow> int" where
  "days_before_month year month =
     sum_list (take (nat (month - 1)) [31, 28, 31, 30, 31, 30, 31, 31, 30, 31, 30, 31])
     + (if month > 2 \<and> is_leap year then 1 else 0)"

definition ymd2ord :: "int \<Rightarrow> int \<Rightarrow> int \<Rightarrow> date" where
  "ymd2ord year month day = days_before_year year + days_before_month year month + day"

text \<open>\<^verbatim>\<open>datetime(year, month, day, hour, minute, second)\<close>, the value
  \<^verbatim>\<open>strptime(..., '%Y-%m-%d %H:%M:%S')\<close> builds from a log line.\<close>

definition mk_datetime :: "int \<Rightarrow> int \<Rightarrow> int \<Rightarrow> int \<Rightarrow> int \<Rightarrow> int \<Rightarrow> datetime" where
  "mk_datetime year month day hour minute second =
     combine (ymd2ord year month day) (((hour * 60 + minute) * 60 + second) * 1000000)"

text \<open>\<^verbatim>\<open>date.max\<close> is 9999-12-31; \<^verbatim>\<open>date + timedelta(days=1)\<close> raises OverflowError
  beyond it.\<close>

definition MAXORDINAL :: int where
  "MAXORDINAL = 3652059"

datatype error = OverflowError

subsection \<open>Device ledger and session accounting\<close>

record device =
  name :: string
  power_w :: real
  is_on :: bool
  session_usage_seconds :: real
  saved_usage_units :: real
  last_on_time :: "datetime option"

text \<open>\<^verbatim>\<open>Device.__init__\<close>.\<close>

definition Device :: "string \<Rightarrow> real \<Rightarrow> device" where
  "Device nm pw =
     \<lparr>name = nm, power_w = pw, is_on = False, session_usage_seconds = 0,
      saved_usage_units = 0, last_on_time = None\<rparr>"

text \<open>\<^verbatim>\<open>Device.toggle\<close>; \<^verbatim>\<open>if self.last_on_time:\<close> tests for \<^verbatim>\<open>None\<close> (a datetime is
  always truthy).\<close>

definition toggle :: "datetime \<Rightarrow> device \<Rightarrow> device" where
  "toggle now d =
     (if is_on d then
        (case last_on_time d of
           Some t \<Rightarrow>
             d\<lparr>is_on := False,
               session_usage_seconds := session_usage_seconds d + total_seconds (now - t),
               last_on_time := None\<rparr>
         | None \<Rightarrow> d\<lparr>is_on := False\<rparr>)
      else d\<lparr>is_on := True, last_on_time := Some now\<rparr>)"

text \<open>\<^verbatim>\<open>Device.update_session_usage\<close> (the spec's \<open>refresh\<close>).\<close>

definition update_session_usage :: "datetime \<Rightarrow> device \<Rightarrow> device" where
  "update_session_usage now d =
     (case last_on_time d of
        Some t \<Rightarrow>
          if is_on d then
            d\<lparr>session_usage_seconds := session_usage_seconds d + total_seconds (now - t),
              last_on_time := Some now\<rparr>
          else d
      | None \<Rightarrow> d)"

definition get_session_units :: "device \<Rightarrow> real" where
  "get_session_units d = (power_w d * session_usage_seconds d) / (1000 * 3600)"

definition get_total_units :: "device \<Rightarrow> real" where
  "get_total_units d = saved_usage_units d + get_session_units d"

text \<open>The body of the loop of \<^verbatim>\<open>App._consolidate_session_usage\<close> for one device. The
  source reads the clock twice: \<open>now1\<close> measures the elapsed time, \<open>now2\<close> becomes the
  new \<^verbatim>\<open>last_on_time\<close>.\<close>

definition consolidate_device :: "datetime \<Rightarrow> datetime \<Rightarrow> device \<Rightarrow> device" where
  "consolidate_device now1 now2 d =
     (let d1 = (case last_on_time d of
                  Some t \<Rightarrow>
                    if is_on d then
                      d\<lparr>session_usage_seconds :=
                          session_usage_seconds d + total_seconds (now1 - t),
                        last_on_time := Some now2\<rparr>
                    else d
                | None \<Rightarrow> d);
          d2 = d1\<lparr>saved_usage_units := saved_usage_units d1 + get_session_units d1\<rparr>
      in d2\<lparr>session_usage_seconds := 0\<rparr>)"

text \<open>\<^verbatim>\<open>App._consolidate_session_usage\<close>: the loop over the devices; \<open>clock\<close> lists the
  pair of clock readings each device gets.\<close>

fun consolidate_session_usage :: "(datetime \<times> datetime) list \<Rightarrow> device list \<Rightarrow> device list" where
  "consolidate_session_usage ((now1, now2) # clock) (d # ds) =
     consolidate_device now1 now2 d # consolidate_session_usage clock ds"
| "consolidate_session_usage clock ds = ds"

text \<open>A device read back by \<^verbatim>\<open>App.load_state\<close>: \<^verbatim>\<open>Device(name, power)\<close> with
  \<^verbatim>\<open>saved_usage_units\<close> set from the file.\<close>

definition load_device :: "string \<Rightarrow> real \<Rightarrow> real \<Rightarrow> device" where
  "load_device nm pw saved = (Device nm pw)\<lparr>saved_usage_units := saved\<rparr>"

text \<open>What \<^verbatim>\<open>App.remove_device\<close> does to the device object: a device that is on is
  toggled off, then the session is folded into the saved units.\<close>

definition remove_device :: "datetime \<Rightarrow> device \<Rightarrow> device" where
  "remove_device now d =
     (let d1 = (if is_on d then toggle now d else d);
          d2 = d1\<lparr>saved_usage_units := saved_usage_units d1 + get_session_units d1\<rparr>
      in d2\<lparr>session_usage_seconds := 0\<rparr>)"

text \<open>The operations that change a device after it was created or loaded.\<close>

datatype device_op =
    Toggle datetime
  | Refresh datetime
  | Consolidate datetime datetime
  | Remove datetime

fun apply_device_op :: "device \<Rightarrow> device_op \<Rightarrow> device" where
  "apply_device_op d (Toggle now) = toggle now d"
| "apply_device_op d (Refresh now) = update_session_usage now d"
| "apply_device_op d (Consolidate now1 now2) = consolidate_device now1 now2 d"
| "apply_device_op d (Remove now) = remove_device now d"

fun run_device_ops :: "device \<Rightarrow> device_op list \<Rightarrow> device" where
  "run_device_ops d [] = d"
| "run_device_ops d (x # xs) = run_device_ops (apply_device_op d x) xs"

text \<open>The invariant of the data model: \<open>on_since\<close> (\<^verbatim>\<open>last_on_time\<close>) is set iff the
  device is on.\<close>

definition on_since_inv :: "device \<Rightarrow> bool" where
  "on_since_inv d = ((last_on_time d \<noteq> None) = is_on d)"

subsection \<open>Strings\<close>

text \<open>Characters are the code points below 256. \<^verbatim>\<open>str.strip()\<close> removes the
  characters for which \<^verbatim>\<open>str.isspace\<close> holds from both ends.\<close>

abbreviation NL :: char where
  "NL \<equiv> CHR 0x0A"

definition is_space :: "char \<Rightarrow> bool" where
  "is_space c =
     (c \<in> set [CHR 0x09, CHR 0x0A, CHR 0x0B, CHR 0x0C, CHR 0x0D, CHR 0x1C, CHR 0x1D,
                CHR 0x1E, CHR 0x1F, CHR 0x20, CHR 0x85, CHR 0xA0])"

definition strip :: "string \<Rightarrow> string" where
  "strip s = rev (dropWhile is_space (rev (dropWhile is_space s)))"

text \<open>\<^verbatim>\<open>s.split(sep)\<close> for a non-empty separator (every separator of the source is a
  non-empty literal): the pieces between the non-overlapping occurrences of \<open>sep\<close>, found
  from the left.\<close>

fun split_from :: "string \<Rightarrow> string \<Rightarrow> string \<Rightarrow> string list" where
  "split_from sep acc [] = [rev acc]"
| "split_from sep acc (c # cs) =
     (if sep \<noteq> [] \<and> take (length sep) (c # cs) = sep
      then rev acc # split_from sep [] (drop (length sep) (c # cs))
      else split_from sep (c # acc) cs)"

definition split_str :: "string \<Rightarrow> string \<Rightarrow> string list" where
  "split_str sep s = split_from sep [] s"

text \<open>\<^verbatim>\<open>s.replace(old, new)\<close> for a non-empty \<open>old\<close>: every non-overlapping occurrence,
  found from the left, is replaced.\<close>

fun replace_str :: "string \<Rightarrow> string \<Rightarrow> string \<Rightarrow> string" where
  "replace_str old new [] = []"
| "replace_str old new (c # cs) =
     (if old \<noteq> [] \<and> take (length old) (c # cs) = old
      then new @ replace_str old new (drop (length old) (c # cs))
      else c # replace_str old new cs)"

definition endswith :: "string \<Rightarrow> string \<Rightarrow> bool" where
  "endswith s suffix = (length suffix \<le> length s \<and> drop (length s - length suffix) s = suffix)"

text \<open>\<^verbatim>\<open>f.readlines()\<close> and \<^verbatim>\<open>for line in f\<close>: the lines of the text, each with its
  terminating newline; the last line has none when the text does not end with one.\<close>

fun readlines :: "string \<Rightarrow> string list" where
  "readlines [] = []"
| "readlines (c # cs) =
     (if c = NL then [c] # readlines cs
      else (case readlines cs of [] \<Rightarrow> [[c]] | l # ls \<Rightarrow> (c # l) # ls))"

subsection \<open>Log store\<close>

definition DEVICES_MARKER :: string where
  "DEVICES_MARKER = ''## DEVICES ##''"

definition LOGS_MARKER :: string where
  "LOGS_MARKER = ''## LOGS ##''"

text \<open>The line \<^verbatim>\<open>f"{device.name} ({device.power}W) | {device.saved_usage_units}\n"\<close>.\<close>

definition device_line :: "(real \<Rightarrow> string) \<Rightarrow> device \<Rightarrow> string" where
  "device_line repr d =
     name d @ '' ('' @ repr (power_w d) @ ''W) | '' @ repr (saved_usage_units d) @ [NL]"

text \<open>What \<^verbatim>\<open>App.save_state\<close> writes before the logs marker.\<close>

definition summary_block :: "(real \<Rightarrow> string) \<Rightarrow> device list \<Rightarrow> string" where
  "summary_block repr devices =
     DEVICES_MARKER @ [NL] @ concat (map (device_line repr) devices)"

text \<open>The first loop of \<^verbatim>\<open>App.save_state\<close>: every line that strips to the logs marker
  sets the flag and is skipped; the other lines are kept once the flag is set.\<close>

fun collect_logs :: "bool \<Rightarrow> string list \<Rightarrow> string list" where
  "collect_logs in_logs_section [] = []"
| "collect_logs in_logs_section (line # rest) =
     (if strip line = LOGS_MARKER then collect_logs True rest
      else if in_logs_section then line # collect_logs in_logs_section rest
      else collect_logs in_logs_section rest)"

text \<open>\<^verbatim>\<open>App.save_state\<close>: the new text of the data file.\<close>

definition save_state :: "(real \<Rightarrow> string) \<Rightarrow> device list \<Rightarrow> string option \<Rightarrow> string" where
  "save_state repr devices file =
     (let logs = (case file of
                    None \<Rightarrow> []
                  | Some content \<Rightarrow> collect_logs False (readlines content))
      in summary_block repr devices @ [NL] @ LOGS_MARKER @ [NL] @ concat logs)"

text \<open>The \<^verbatim>\<open>try\<close> block of \<^verbatim>\<open>App.load_state\<close> for one stripped line; \<open>None\<close> is the
  \<^verbatim>\<open>except\<close> branch (a tuple unpacking of other than two parts, or \<^verbatim>\<open>float()\<close>
  raising).\<close>

definition parse_device_line :: "(string \<Rightarrow> real option) \<Rightarrow> string \<Rightarrow> device option" where
  "parse_device_line pfloat stripped =
     (case split_str '' | '' stripped of
        [info_part, usage_part] \<Rightarrow>
          (case split_str '' ('' info_part of
             [name_part, power_part] \<Rightarrow>
               (case split_str ''W)'' power_part of
                  [] \<Rightarrow> None
                | p # _ \<Rightarrow>
                    (case pfloat p of
                       None \<Rightarrow> None
                     | Some pw \<Rightarrow>
                         (case pfloat usage_part of
                            None \<Rightarrow> None
                          | Some saved_usage \<Rightarrow>
                              Some (load_device (strip name_part) pw saved_usage))))
           | _ \<Rightarrow> None)
      | _ \<Rightarrow> None)"

text \<open>The loop of \<^verbatim>\<open>App.load_state\<close> over the lines of the file.\<close>

fun load_lines :: "(string \<Rightarrow> real option) \<Rightarrow> bool \<Rightarrow> string list \<Rightarrow> device list" where
  "load_lines pfloat in_devices_section [] = []"
| "load_lines pfloat in_devices_section (line # rest) =
     (let stripped = strip line in
      if stripped = [] then load_lines pfloat in_devices_section rest
      else if stripped = DEVICES_MARKER then load_lines pfloat True rest
      else if stripped = LOGS_MARKER then []
      else if in_devices_section then
        (case parse_device_line pfloat stripped of
           Some d \<Rightarrow> d # load_lines pfloat in_devices_section rest
         | None \<Rightarrow> load_lines pfloat in_devices_section rest)
      else load_lines pfloat in_devices_section rest)"

text \<open>\<^verbatim>\<open>App.load_state\<close>: the devices appended to the (empty) device list.\<close>

definition load_state :: "(string \<Rightarrow> real option) \<Rightarrow> string option \<Rightarrow> device list" where
  "load_state pfloat file =
     (case file of None \<Rightarrow> [] | Some content \<Rightarrow> load_lines pfloat False (readlines content))"

text \<open>\<^verbatim>\<open>App.toggle_device\<close>: the device is toggled and one line is appended to the data
  file (created when missing); \<open>ts\<close> is \<^verbatim>\<open>now.strftime('%Y-%m-%d %H:%M:%S')\<close>.\<close>

definition log_message :: "string \<Rightarrow> device \<Rightarrow> string" where
  "log_message ts d =
     ''['' @ ts @ ''] '' @ name d @ '' turned '' @ (if is_on d then ''ON'' else ''OFF'') @ [NL]"

definition append_file :: "string option \<Rightarrow> string \<Rightarrow> string option" where
  "append_file file msg = Some ((case file of None \<Rightarrow> [] | Some content \<Rightarrow> content) @ msg)"

definition toggle_device :: "datetime \<Rightarrow> string \<Rightarrow> device \<Rightarrow> string option \<Rightarrow> device \<times> string option" where
  "toggle_device now ts d file =
     (let d' = toggle now d in (d', append_file file (log_message ts d')))"

text \<open>The notions the claims about the log block use: a marker line, and the log block
  of a text, the lines that follow its first marker line.\<close>

definition is_logs_marker :: "string \<Rightarrow> bool" where
  "is_logs_marker line = (strip line = LOGS_MARKER)"

definition log_block :: "string \<Rightarrow> string list" where
  "log_block content =
     (case dropWhile (\<lambda>l. \<not> is_logs_marker l) (readlines content) of
        [] \<Rightarrow> []
      | _ # rest \<Rightarrow> rest)"

text \<open>Consecutive calls of \<^verbatim>\<open>App.save_state\<close> on an existing file, each with the device
  list of that moment.\<close>

fun save_repeatedly :: "(real \<Rightarrow> string) \<Rightarrow> device list list \<Rightarrow> string \<Rightarrow> string" where
  "save_repeatedly repr [] content = content"
| "save_repeatedly repr (devices # rest) content =
     save_repeatedly repr rest (save_state repr devices (Some content))"

subsection \<open>Daily aggregator\<close>

text \<open>The dictionaries of \<^verbatim>\<open>App.show_stats\<close> are association lists in insertion order:
  \<^verbatim>\<open>device_power_map\<close>, \<^verbatim>\<open>open_sessions\<close> and \<^verbatim>\<open>daily_usage_seconds_cumulative\<close>,
  the last keyed by \<^verbatim>\<open>(date, device_name)\<close>.\<close>

type_synonym usage = "((date \<times> string) \<times> real) list"

record log_entry =
  log_timestamp :: datetime
  log_device :: string
  log_status :: string

definition device_power_map :: "device list \<Rightarrow> (string \<times> real) list" where
  "device_power_map devices = fold (\<lambda>d m. AList.update (name d) (power_w d) m) devices []"

text \<open>The \<^verbatim>\<open>try\<close> block that parses one stripped log line; \<open>strptime\<close> is
  \<^verbatim>\<open>datetime.strptime(_, '%Y-%m-%d %H:%M:%S')\<close>, \<open>None\<close> where it raises ValueError.
  A line without \<^verbatim>\<open>' turned '\<close> raises IndexError; both are skipped.\<close>

definition parse_log_line :: "(string \<Rightarrow> datetime option) \<Rightarrow> string \<Rightarrow> log_entry option" where
  "parse_log_line strptime stripped_line =
     (let timestamp_str = take 19 (drop 1 stripped_line) in
      case strptime timestamp_str of
        None \<Rightarrow> None
      | Some dt_obj \<Rightarrow>
          (let status_part_raw = drop 22 stripped_line in
           case split_str '' turned '' status_part_raw of
             p0 # p1 # _ \<Rightarrow>
               (case split_str '' '' p1 of
                  [] \<Rightarrow> None
                | s0 # _ \<Rightarrow>
                    Some \<lparr>log_timestamp = dt_obj, log_device = strip p0, log_status = strip s0\<rparr>)
           | _ \<Rightarrow> None))"

fun parse_logs :: "(string \<Rightarrow> datetime option) \<Rightarrow> bool \<Rightarrow> string list \<Rightarrow> log_entry list" where
  "parse_logs strptime logs_section_started [] = []"
| "parse_logs strptime logs_section_started (line # rest) =
     (let stripped_line = strip line in
      if stripped_line = LOGS_MARKER then parse_logs strptime True rest
      else if \<not> logs_section_started \<or> stripped_line = [] then
        parse_logs strptime logs_section_started rest
      else
        (case parse_log_line strptime stripped_line of
           Some entry \<Rightarrow> entry # parse_logs strptime logs_section_started rest
         | None \<Rightarrow> parse_logs strptime logs_section_started rest))"

text \<open>The \<^verbatim>\<open>while current_date_iter <= end_time.date()\<close> loop (it occurs twice in the
  source, for closed and for still open sessions): the session is clipped to each day's
  \<^verbatim>\<open>[time.min, time.max]\<close> and a positive duration is added to the day's entry.
  \<^verbatim>\<open>current_date_iter += timedelta(days=1)\<close> raises OverflowError past \<^verbatim>\<open>date.max\<close>.\<close>

function attribute_days :: "string \<Rightarrow> datetime \<Rightarrow> datetime \<Rightarrow> date \<Rightarrow> usage \<Rightarrow> error + usage" where
  "attribute_days device_name start_time end_time current_date_iter usage =
     (if current_date_iter \<le> date_of end_time then
        (let day_start = combine current_date_iter time_min;
             day_end = combine current_date_iter time_max;
             session_start_on_day = max start_time day_start;
             session_end_on_day = min end_time day_end;
             duration = total_seconds (session_end_on_day - session_start_on_day);
             key = (current_date_iter, device_name);
             usage' = (if duration > 0
                       then AList.update key
                              ((case map_of usage key of None \<Rightarrow> 0 | Some v \<Rightarrow> v) + duration) usage
                       else usage)
         in if 0 < current_date_iter + 1 \<and> current_date_iter + 1 \<le> MAXORDINAL
            then attribute_days device_name start_time end_time (current_date_iter + 1) usage'
            else Inl OverflowError)
      else Inr usage)"
  by pat_completeness auto
termination
  by (relation "measure (\<lambda>(device_name, start_time, end_time, current_date_iter, usage).
        nat (date_of end_time + 1 - current_date_iter))") auto

declare attribute_days.simps [simp del]

text \<open>One iteration of the replay loop over the sorted log entries.\<close>

definition replay_step ::
  "(string \<times> real) list \<Rightarrow> log_entry \<Rightarrow> (string \<times> datetime) list \<times> usage
     \<Rightarrow> error + (string \<times> datetime) list \<times> usage" where
  "replay_step pm entry st =
     (let open_sessions = fst st; usage = snd st; device_name = log_device entry in
      if map_of pm device_name = None then Inr (open_sessions, usage)
      else if log_status entry = ''ON'' then
        Inr (AList.update device_name (log_timestamp entry) open_sessions, usage)
      else if log_status entry = ''OFF'' then
        (case map_of open_sessions device_name of
           None \<Rightarrow> Inr (open_sessions, usage)
         | Some start_time \<Rightarrow>
             (case attribute_days device_name start_time (log_timestamp entry)
                     (date_of start_time) usage of
                Inl e \<Rightarrow> Inl e
              | Inr usage' \<Rightarrow> Inr (AList.delete device_name open_sessions, usage')))
      else Inr (open_sessions, usage))"

fun replay_logs ::
  "(string \<times> real) list \<Rightarrow> log_entry list \<Rightarrow> (string \<times> datetime) list \<times> usage
     \<Rightarrow> error + (string \<times> datetime) list \<times> usage" where
  "replay_logs pm [] st = Inr st"
| "replay_logs pm (entry # rest) st =
     (case replay_step pm entry st of
        Inl e \<Rightarrow> Inl e
      | Inr st' \<Rightarrow> replay_logs pm rest st')"

text \<open>The loop over the devices that are still on: the open session runs to \<open>now\<close>.\<close>

fun live_sessions :: "datetime \<Rightarrow> device list \<Rightarrow> usage \<Rightarrow> error + usage" where
  "live_sessions now [] usage = Inr usage"
| "live_sessions now (d # ds) usage =
     (case last_on_time d of
        Some start_time \<Rightarrow>
          if is_on d then
            (case attribute_days (name d) start_time now (date_of start_time) usage of
               Inl e \<Rightarrow> Inl e
             | Inr usage' \<Rightarrow> live_sessions now ds usage')
          else live_sessions now ds usage
      | None \<Rightarrow> live_sessions now ds usage)"

text \<open>The data frame: its index (rows), its columns (dates) and its values.\<close>

record stats_table =
  df_index :: "string list"
  df_columns :: "date list"
  df_values :: "string \<Rightarrow> date \<Rightarrow> real"

definition set_cell :: "string \<Rightarrow> date \<Rightarrow> real \<Rightarrow> (string \<Rightarrow> date \<Rightarrow> real) \<Rightarrow> string \<Rightarrow> date \<Rightarrow> real" where
  "set_cell device_name day v df = df(device_name := (df device_name)(day := v))"

definition kwh :: "real \<Rightarrow> real \<Rightarrow> real" where
  "kwh pw seconds = (pw * seconds) / (1000 * 3600)"

definition fill_usage ::
  "(string \<times> real) list \<Rightarrow> string list \<Rightarrow> date list \<Rightarrow> (date \<times> string) \<times> real
     \<Rightarrow> (string \<Rightarrow> date \<Rightarrow> real) \<Rightarrow> string \<Rightarrow> date \<Rightarrow> real" where
  "fill_usage pm rows cols item df =
     (let day = fst (fst item); device_name = snd (fst item); seconds = snd item in
      if day \<in> set cols \<and> device_name \<in> set rows then
        set_cell device_name day
          (kwh (case map_of pm device_name of None \<Rightarrow> 0 | Some pw \<Rightarrow> pw) seconds) df
      else df)"

definition fill_today ::
  "string list \<Rightarrow> date list \<Rightarrow> date \<Rightarrow> device
     \<Rightarrow> (string \<Rightarrow> date \<Rightarrow> real) \<Rightarrow> string \<Rightarrow> date \<Rightarrow> real" where
  "fill_today rows cols today_date_obj d df =
     (if name d \<in> set rows \<and> today_date_obj \<in> set cols
      then set_cell (name d) today_date_obj (get_total_units d) df
      else df)"

text \<open>\<^verbatim>\<open>daily_usage_seconds_cumulative\<close> after the replay of the sorted log entries and
  the loop over the devices that are still on (closed at \<open>now\<close>).\<close>

definition daily_usage :: "datetime \<Rightarrow> device list \<Rightarrow> log_entry list \<Rightarrow> error + usage" where
  "daily_usage now devices processed_logs =
     (case replay_logs (device_power_map devices)
             (sort_key log_timestamp processed_logs) ([], []) of
        Inl e \<Rightarrow> Inl e
      | Inr st \<Rightarrow> live_sessions now devices (snd st))"

text \<open>\<^verbatim>\<open>App.show_stats\<close> from the parsed log entries on; \<open>now'\<close> is the later clock
  reading that gives today's date. \<open>Inl\<close> is the \<^verbatim>\<open>except Exception\<close> branch (an error
  text and no table), \<open>Inr None\<close> the "No usage data to display" label.\<close>

definition stats_table :: "datetime \<Rightarrow> datetime \<Rightarrow> device list \<Rightarrow> log_entry list
    \<Rightarrow> error + stats_table option" where
  "stats_table now now' devices processed_logs =
     (let pm = device_power_map devices in
      case daily_usage now devices processed_logs of
        Inl e \<Rightarrow> Inl e
      | Inr usage \<Rightarrow>
          if usage = [] \<and> devices = [] then Inr None
          else
            (let today_date_obj = date_of now' in
             if today_date_obj - 6 \<le> 0 then Inl OverflowError
             else
               (let dates_for_columns = map (\<lambda>i. today_date_obj - i) [6, 5, 4, 3, 2, 1, 0];
                    all_device_names =
                      sort (remdups (map name devices @ map (\<lambda>item. snd (fst item)) usage));
                    df = fold (fill_usage pm all_device_names dates_for_columns) usage
                           (\<lambda>device_name day. 0);
                    df' = fold (fill_today all_device_names dates_for_columns today_date_obj)
                            devices df
                in Inr (Some \<lparr>df_index = all_device_names,
                              df_columns = dates_for_columns,
                              df_values = df'\<rparr>))))"

definition read_logs :: "(string \<Rightarrow> datetime option) \<Rightarrow> string option \<Rightarrow> log_entry list" where
  "read_logs strptime file =
     (case file of
        None \<Rightarrow> []
      | Some content \<Rightarrow> parse_logs strptime False (readlines content))"

definition show_stats :: "(string \<Rightarrow> datetime option) \<Rightarrow> datetime \<Rightarrow> datetime \<Rightarrow> device list
    \<Rightarrow> string option \<Rightarrow> error + stats_table option" where
  "show_stats strptime now now' devices file =
     stats_table now now' devices (read_logs strptime file)"

text \<open>Every open session started on a day of non-negative ordinal (every Python date
  has a positive one).\<close>

definition starts_ok :: "(string \<times> datetime) list \<Rightarrow> bool" where
  "starts_ok os = (\<forall>p \<in> set os. 0 \<le> date_of (snd p))"

subsection \<open>Leaderboard aggregator\<close>

text \<open>The loop of \<^verbatim>\<open>App.show_leaderboard\<close> over the lines of one data file: the sum of
  the \<^verbatim>\<open>saved_usage\<close> fields of the summary block; a line that does not split into two
  parts at \<^verbatim>\<open>" | "\<close> or whose second part is no float is skipped.\<close>

fun file_total :: "(string \<Rightarrow> real option) \<Rightarrow> bool \<Rightarrow> string list \<Rightarrow> real \<Rightarrow> real" where
  "file_total pfloat in_devices_section [] total_usage_from_file = total_usage_from_file"
| "file_total pfloat in_devices_section (line # rest) total_usage_from_file =
     (let stripped = strip line in
      if stripped = [] then file_total pfloat in_devices_section rest total_usage_from_file
      else if stripped = DEVICES_MARKER then file_total pfloat True rest total_usage_from_file
      else if stripped = LOGS_MARKER then total_usage_from_file
      else if in_devices_section then
        (case split_str '' | '' stripped of
           [info_part, usage_part] \<Rightarrow>
             (case pfloat usage_part of
                Some saved_usage \<Rightarrow>
                  file_total pfloat in_devices_section rest (total_usage_from_file + saved_usage)
              | None \<Rightarrow> file_total pfloat in_devices_section rest total_usage_from_file)
         | _ \<Rightarrow> file_total pfloat in_devices_section rest total_usage_from_file)
      else file_total pfloat in_devices_section rest total_usage_from_file)"

text \<open>\<^verbatim>\<open>self.data_file = f"{self.username}_data.txt"\<close>: the name of a user's data
  file.\<close>

definition data_file :: "string \<Rightarrow> string" where
  "data_file username = username @ ''_data.txt''"

text \<open>The live total of the active user: saved plus session units of every device.\<close>

definition current_user_total_usage :: "device list \<Rightarrow> real" where
  "current_user_total_usage devices = fold (\<lambda>d acc. acc + get_total_units d) devices 0"

text \<open>The loop over \<^verbatim>\<open>os.listdir('.')\<close>: the directory is the list of its file names in
  listing order, each with the text of the file, or \<open>None\<close> when opening or reading it
  raises (the \<^verbatim>\<open>except\<close> branch skips the file).\<close>

fun scan_files ::
  "(string \<Rightarrow> real option) \<Rightarrow> string \<Rightarrow> real \<Rightarrow> (string \<times> string option) list
     \<Rightarrow> (string \<times> real) list" where
  "scan_files pfloat username current_total [] = []"
| "scan_files pfloat username current_total ((filename, content) # rest) =
     (if endswith filename ''_data.txt'' then
        (case content of
           None \<Rightarrow> scan_files pfloat username current_total rest
         | Some text_of_file \<Rightarrow>
             (let username_from_file = replace_str ''_data.txt'' [] filename;
                  total_usage_from_file = file_total pfloat False (readlines text_of_file) 0;
                  final_user_usage = (if username_from_file = username then current_total
                                      else total_usage_from_file)
              in (username_from_file, final_user_usage)
                 # scan_files pfloat username current_total rest))
      else scan_files pfloat username current_total rest)"

text \<open>\<^verbatim>\<open>App.show_leaderboard\<close>: the entries \<^verbatim>\<open>(username, total_usage)\<close> after
  \<^verbatim>\<open>leaderboard_data.sort(key=...)\<close>, a stable ascending sort; the empty list stands for
  the "No users found" label.\<close>

definition show_leaderboard ::
  "(string \<Rightarrow> real option) \<Rightarrow> string \<Rightarrow> device list \<Rightarrow> (string \<times> string option) list
     \<Rightarrow> (string \<times> real) list" where
  "show_leaderboard pfloat username devices directory =
     sort_key snd (scan_files pfloat username (current_user_total_usage devices) directory)"

section \<open>Session accounting: theorems\<close>

lemma toggle_inv: "on_since_inv (toggle now d)"
  by (simp add: on_since_inv_def toggle_def split: option.splits)

lemma update_session_usage_inv: "on_since_inv d \<Longrightarrow> on_since_inv (update_session_usage now d)"
  by (auto simp: on_since_inv_def update_session_usage_def split: option.splits)

lemma consolidate_device_inv: "on_since_inv d \<Longrightarrow> on_since_inv (consolidate_device now1 now2 d)"
  by (auto simp: on_since_inv_def consolidate_device_def Let_def split: option.splits)

lemma remove_device_inv: "on_since_inv d \<Longrightarrow> on_since_inv (remove_device now d)"
  by (auto simp: on_since_inv_def remove_device_def toggle_def Let_def split: option.splits)

lemma apply_device_op_inv: "on_since_inv d \<Longrightarrow> on_since_inv (apply_device_op d x)"
  by (cases x)
    (simp_all add: toggle_inv update_session_usage_inv consolidate_device_inv remove_device_inv)

lemma run_device_ops_inv: "on_since_inv d \<Longrightarrow> on_since_inv (run_device_ops d xs)"
proof (induction xs arbitrary: d)
  case Nil
  then show ?case by simp
next
  case (Cons x xs)
  from Cons.prems have "on_since_inv (apply_device_op d x)"
    by (rule apply_device_op_inv)
  then show ?case by (simp add: Cons.IH)
qed

lemma Device_inv: "on_since_inv (Device nm pw)"
  by (simp add: on_since_inv_def Device_def)

lemma load_device_inv: "on_since_inv (load_device nm pw saved)"
  by (simp add: on_since_inv_def load_device_def Device_def)

text \<open>
  C7. For every device, created by \<^verbatim>\<open>Device(name, power)\<close> or loaded from the summary
  block, and every sequence of toggle, refresh, consolidate (and removal) at any clock
  readings, \<^verbatim>\<open>last_on_time\<close> is set if and only if \<^verbatim>\<open>is_on\<close> is true.
\<close>

theorem on_since_iff_is_on:
  "on_since_inv (run_device_ops (Device nm pw) ops) \<and>
   on_since_inv (run_device_ops (load_device nm pw saved) ops)"
  by (simp add: run_device_ops_inv Device_inv load_device_inv)

theorem on_since_iff_is_on_witness:
  "on_since_inv (run_device_ops (Device ''Lamp'' 60) [Toggle 5, Refresh 9, Consolidate 12 13]) \<and>
   is_on (run_device_ops (Device ''Lamp'' 60) [Toggle 5, Refresh 9, Consolidate 12 13]) \<and>
   last_on_time (run_device_ops (Device ''Lamp'' 60) [Toggle 5, Refresh 9, Consolidate 12 13])
     = Some 13"
  using on_since_iff_is_on [of "''Lamp''" 60 "[Toggle 5, Refresh 9, Consolidate 12 13]" 0]
  by (simp add: Device_def toggle_def update_session_usage_def consolidate_device_def)

lemma consolidate_device_total:
  "get_total_units (consolidate_device now1 now2 d) =
     saved_usage_units d
     + power_w d * (session_usage_seconds d
          + (case last_on_time d of
               Some t \<Rightarrow> if is_on d then total_seconds (now1 - t) else 0
             | None \<Rightarrow> 0)) / (1000 * 3600)"
  by (simp add: consolidate_device_def get_total_units_def get_session_units_def Let_def
      split: option.splits)

text \<open>
  C2 as stated fails: \<^verbatim>\<open>get_total_units\<close> does not count the time since
  \<^verbatim>\<open>last_on_time\<close>, and the consolidation rolls that time in before it folds. A 1000 W
  device switched on at time 0 and consolidated one hour later had a total of 0 units
  before and has 1 unit after.
\<close>

theorem consolidate_changes_total_counterexample:
  "get_total_units (consolidate_device 3600000000 3600000000 (toggle 0 (Device ''Heater'' 1000)))
     = 1 \<and>
   get_total_units (toggle 0 (Device ''Heater'' 1000)) = 0 \<and>
   get_total_units (consolidate_device 3600000000 3600000000 (toggle 0 (Device ''Heater'' 1000)))
     \<noteq> get_total_units (toggle 0 (Device ''Heater'' 1000))"
  by (simp add: consolidate_device_def get_total_units_def get_session_units_def Let_def
      toggle_def Device_def total_seconds_def)

text \<open>
  C2, amended. Consolidating a device leaves \<^verbatim>\<open>get_total_units\<close> equal to its value
  immediately before plus the energy of the on-time elapsed since \<^verbatim>\<open>last_on_time\<close>
  that the refresh rolls in, \<open>power * (now - last_on_time) / 3600000\<close>; for a device
  that is off (or has no \<^verbatim>\<open>last_on_time\<close>) that term is zero and the total is unchanged:
  the fold itself gains or loses nothing.
\<close>

theorem consolidate_total_units:
  "get_total_units (consolidate_device now1 now2 d) =
     get_total_units d
     + (case last_on_time d of
          Some t \<Rightarrow> if is_on d then power_w d * total_seconds (now1 - t) / (1000 * 3600) else 0
        | None \<Rightarrow> 0)"
  unfolding consolidate_device_total
  by (simp add: get_total_units_def get_session_units_def algebra_simps add_divide_distrib
      split: option.splits)

theorem consolidate_total_units_witness:
  "get_total_units (consolidate_device 50 51 (load_device ''Lamp'' 60 (5/2))) = 5/2 \<and>
   get_total_units (load_device ''Lamp'' 60 (5/2)) = 5/2 \<and>
   get_total_units
     (consolidate_device 7200000000 7200000001 (toggle 3600000000 (load_device ''Lamp'' 60 (5/2))))
     = 5/2 + 60 * 3600 / 3600000"
  using consolidate_total_units [of 50 51 "load_device ''Lamp'' 60 (5/2)"]
    consolidate_total_units [of 7200000000 7200000001
      "toggle 3600000000 (load_device ''Lamp'' 60 (5/2))"]
  by (simp add: load_device_def Device_def toggle_def get_total_units_def get_session_units_def
      total_seconds_def)

section \<open>Log store: theorems\<close>

subsection \<open>Lines of a text\<close>

lemma concat_readlines: "concat (readlines s) = s"
  by (induction s) (auto split: list.splits)

lemma readlines_line: "NL \<notin> set b \<Longrightarrow> readlines (b @ NL # t) = (b @ [NL]) # readlines t"
  by (induction b) auto

lemma readlines_append:
  "s = [] \<or> last s = NL \<Longrightarrow> readlines (s @ t) = readlines s @ readlines t"
proof (induction s)
  case Nil
  then show ?case by simp
next
  case (Cons c s)
  show ?case
  proof (cases "s = []")
    case True
    with Cons.prems show ?thesis by simp
  next
    case False
    with Cons.prems have "last s = NL" by simp
    with Cons.IH have IH: "readlines (s @ t) = readlines s @ readlines t" by simp
    from False have "readlines s \<noteq> []" by (cases s) (auto split: list.splits)
    with IH show ?thesis by (auto split: list.splits)
  qed
qed

lemma readlines_tail: "readlines s = x # ys \<Longrightarrow> readlines (concat ys) = ys"
proof (induction s arbitrary: x ys)
  case Nil
  then show ?case by simp
next
  case (Cons c s)
  show ?case
  proof (cases "c = NL")
    case True
    with Cons.prems have "ys = readlines s" by simp
    then show ?thesis by (simp add: concat_readlines)
  next
    case False
    show ?thesis
    proof (cases "readlines s")
      case Nil
      with False Cons.prems show ?thesis by simp
    next
      case (Cons l ls)
      with False Cons.prems have "ys = ls" by simp
      with Cons Cons.IH show ?thesis by simp
    qed
  qed
qed

lemma readlines_suffix: "readlines s = xs @ ys \<Longrightarrow> readlines (concat ys) = ys"
proof (induction xs arbitrary: s)
  case Nil
  then show ?case by (metis append_Nil concat_readlines)
next
  case (Cons x xs)
  from Cons.prems have "readlines s = x # (xs @ ys)" by simp
  then have "readlines (concat (xs @ ys)) = xs @ ys"
    by (rule readlines_tail)
  then show ?case by (rule Cons.IH)
qed

subsection \<open>What a save keeps\<close>

lemma collect_logs_True:
  "collect_logs True ls = filter (\<lambda>l. \<not> is_logs_marker l) ls"
  by (induction ls) (simp_all add: is_logs_marker_def)

lemma collect_logs_False:
  "collect_logs False ls =
     filter (\<lambda>l. \<not> is_logs_marker l)
       (case dropWhile (\<lambda>l. \<not> is_logs_marker l) ls of [] \<Rightarrow> [] | _ # rest \<Rightarrow> rest)"
  by (induction ls) (simp_all add: is_logs_marker_def collect_logs_True)

lemma collect_logs_log_block:
  "collect_logs False (readlines content) = filter (\<lambda>l. \<not> is_logs_marker l) (log_block content)"
  by (simp add: collect_logs_False log_block_def)

lemma collect_logs_no_marker:
  "\<forall>l \<in> set ls. \<not> is_logs_marker l \<Longrightarrow> collect_logs False ls = []"
  by (induction ls) (simp_all add: is_logs_marker_def)

lemma log_block_suffix: "\<exists>xs. readlines content = xs @ log_block content"
proof (cases "dropWhile (\<lambda>l. \<not> is_logs_marker l) (readlines content)")
  case Nil
  have "log_block content = []" unfolding log_block_def Nil by simp
  then show ?thesis by simp
next
  case (Cons m rest)
  have "readlines content =
      takeWhile (\<lambda>l. \<not> is_logs_marker l) (readlines content) @ m # rest"
    using Cons by (metis takeWhile_dropWhile_id)
  then have "readlines content =
      (takeWhile (\<lambda>l. \<not> is_logs_marker l) (readlines content) @ [m]) @ log_block content"
    using Cons by (simp add: log_block_def)
  then show ?thesis by blast
qed

lemma readlines_log_block: "readlines (concat (log_block content)) = log_block content"
  using log_block_suffix readlines_suffix by blast

lemma summary_block_last: "last (summary_block repr devices) = NL"
  by (induction devices rule: rev_induct)
    (simp_all add: summary_block_def device_line_def DEVICES_MARKER_def)

lemma marker_line: "is_logs_marker (LOGS_MARKER @ [NL])"
  by (simp add: is_logs_marker_def strip_def is_space_def LOGS_MARKER_def)

lemma blank_not_marker: "\<not> is_logs_marker [NL]"
  by (simp add: is_logs_marker_def strip_def is_space_def LOGS_MARKER_def)

lemma readlines_written:
  "readlines (summary_block repr devices @ [NL] @ LOGS_MARKER @ [NL] @ t) =
     readlines (summary_block repr devices) @ [[NL], LOGS_MARKER @ [NL]] @ readlines t"
proof -
  have "NL \<notin> set LOGS_MARKER" by (simp add: LOGS_MARKER_def)
  then have "readlines (LOGS_MARKER @ NL # t) = (LOGS_MARKER @ [NL]) # readlines t"
    by (rule readlines_line)
  then show ?thesis
    using readlines_append [of "summary_block repr devices"] summary_block_last [of repr devices]
    by simp
qed

lemma log_block_written:
  assumes "\<forall>l \<in> set (readlines (summary_block repr devices)). \<not> is_logs_marker l"
  shows "log_block (summary_block repr devices @ [NL] @ LOGS_MARKER @ [NL] @ t) = readlines t"
  unfolding log_block_def readlines_written
  using assms by (simp add: marker_line blank_not_marker)

lemma save_state_log_block:
  assumes summary: "\<forall>l \<in> set (readlines (summary_block repr devices)). \<not> is_logs_marker l"
    and logs: "\<forall>l \<in> set (log_block content). \<not> is_logs_marker l"
  shows "log_block (save_state repr devices (Some content)) = log_block content"
proof -
  from logs have "collect_logs False (readlines content) = log_block content"
    by (simp add: collect_logs_log_block)
  then have "log_block (save_state repr devices (Some content)) =
      readlines (concat (log_block content))"
    using log_block_written [OF summary, of "concat (log_block content)"]
    by (simp add: save_state_def)
  then show ?thesis by (simp add: readlines_log_block)
qed

text \<open>
  C4 as stated fails: the first loop of \<^verbatim>\<open>save_state\<close> skips every line that strips to
  the marker, not only the first. A file whose log block holds a second marker line
  loses that line at the next save.
\<close>

theorem log_block_second_marker_counterexample:
  "log_block (''## LOGS ##'' @ [NL] @ ''a'' @ [NL] @ ''## LOGS ##'' @ [NL] @ ''b'' @ [NL])
     = [''a'' @ [NL], ''## LOGS ##'' @ [NL], ''b'' @ [NL]] \<and>
   log_block (save_state (\<lambda>x. ''0.0'') []
       (Some (''## LOGS ##'' @ [NL] @ ''a'' @ [NL] @ ''## LOGS ##'' @ [NL] @ ''b'' @ [NL])))
     = [''a'' @ [NL], ''b'' @ [NL]]"
  by (simp add: log_block_def save_state_def summary_block_def is_logs_marker_def strip_def
      is_space_def LOGS_MARKER_def DEVICES_MARKER_def)

text \<open>
  C4, amended. For every file whose log block (the lines following its first
  \<^verbatim>\<open>## LOGS ##\<close> line) holds no further marker line, any number of consecutive
  \<^verbatim>\<open>save_state\<close> calls, each with a device list whose summary lines are not marker
  lines, leave the log block unchanged line for line.
\<close>

theorem log_block_preserved:
  assumes "\<forall>devices \<in> set saves.
      \<forall>l \<in> set (readlines (summary_block repr devices)). \<not> is_logs_marker l"
    and "\<forall>l \<in> set (log_block content). \<not> is_logs_marker l"
  shows "log_block (save_repeatedly repr saves content) = log_block content"
  using assms
proof (induction saves arbitrary: content)
  case Nil
  then show ?case by simp
next
  case (Cons devices rest)
  let ?next = "save_state repr devices (Some content)"
  from Cons.prems have step: "log_block ?next = log_block content"
    by (simp add: save_state_log_block)
  with Cons.prems have "\<forall>l \<in> set (log_block ?next). \<not> is_logs_marker l" by simp
  with Cons.prems have "log_block (save_repeatedly repr rest ?next) = log_block ?next"
    by (intro Cons.IH) simp_all
  with step show ?case by simp
qed

theorem log_block_preserved_witness:
  "map is_logs_marker
     (readlines (summary_block (\<lambda>x. if x = 60 then ''60.0'' else ''0.0'') [Device ''Lamp'' 60]))
     = [False, False] \<and>
   map is_logs_marker (readlines (summary_block (\<lambda>x. if x = 60 then ''60.0'' else ''0.0'') []))
     = [False] \<and>
   map is_logs_marker
     (log_block (''## DEVICES ##'' @ [NL] @ [NL] @ ''## LOGS ##'' @ [NL] @
        ''[2024-01-01 10:00:00] Lamp turned ON'' @ [NL] @ ''note''))
     = [False, False] \<and>
   log_block (save_repeatedly (\<lambda>x. if x = 60 then ''60.0'' else ''0.0'') [[Device ''Lamp'' 60], []]
      (''## DEVICES ##'' @ [NL] @ [NL] @ ''## LOGS ##'' @ [NL] @
        ''[2024-01-01 10:00:00] Lamp turned ON'' @ [NL] @ ''note''))
    = [''[2024-01-01 10:00:00] Lamp turned ON'' @ [NL], ''note'']"
  using log_block_preserved [of "[[Device ''Lamp'' 60], []]"
     "\<lambda>x. if x = 60 then ''60.0'' else ''0.0''"
     "''## DEVICES ##'' @ [NL] @ [NL] @ ''## LOGS ##'' @ [NL] @
        ''[2024-01-01 10:00:00] Lamp turned ON'' @ [NL] @ ''note''"]
  by (simp add: is_logs_marker_def strip_def is_space_def LOGS_MARKER_def DEVICES_MARKER_def
      summary_block_def device_line_def Device_def log_block_def)

text \<open>
  C9. If no line of the data file is a \<^verbatim>\<open>## LOGS ##\<close> marker line, \<^verbatim>\<open>save_state\<close>
  carries no line over: the new text is the summary block followed by the marker line
  and nothing else, so (the summary lines not being marker lines) its log block is
  empty.
\<close>

theorem save_state_without_marker:
  assumes "\<forall>l \<in> set (readlines content). \<not> is_logs_marker l"
  shows "collect_logs False (readlines content) = [] \<and>
    save_state repr devices (Some content) =
      summary_block repr devices @ [NL] @ LOGS_MARKER @ [NL] \<and>
    ((\<forall>l \<in> set (readlines (summary_block repr devices)). \<not> is_logs_marker l) \<longrightarrow>
       log_block (save_state repr devices (Some content)) = [])"
proof -
  from assms have none: "collect_logs False (readlines content) = []"
    by (rule collect_logs_no_marker)
  then have written: "save_state repr devices (Some content) =
      summary_block repr devices @ [NL] @ LOGS_MARKER @ [NL]"
    by (simp add: save_state_def)
  have "log_block (save_state repr devices (Some content)) = []"
    if "\<forall>l \<in> set (readlines (summary_block repr devices)). \<not> is_logs_marker l"
    using log_block_written [OF that, of "[]"] written by simp
  with none written show ?thesis by blast
qed

text \<open>The witness: two toggles append their lines to a file that was never saved; the
  save that follows drops both.\<close>

lemma toggle_device_appends:
  "snd (toggle_device 10 ''2024-01-01 10:00:00'' (Device ''Lamp'' 60) None) =
     Some (''[2024-01-01 10:00:00] Lamp turned ON'' @ [NL]) \<and>
   snd (toggle_device 20 ''2024-01-01 11:00:00''
          (fst (toggle_device 10 ''2024-01-01 10:00:00'' (Device ''Lamp'' 60) None))
          (Some (''[2024-01-01 10:00:00] Lamp turned ON'' @ [NL]))) =
     Some (''[2024-01-01 10:00:00] Lamp turned ON'' @ [NL] @
           ''[2024-01-01 11:00:00] Lamp turned OFF'' @ [NL])"
  by (simp add: toggle_device_def toggle_def append_file_def log_message_def Device_def Let_def)

theorem save_state_without_marker_witness:
  "map is_logs_marker
     (readlines (''[2024-01-01 10:00:00] Lamp turned ON'' @ [NL] @
        ''[2024-01-01 11:00:00] Lamp turned OFF'' @ [NL]))
     = [False, False] \<and>
   map is_logs_marker
     (readlines (summary_block (\<lambda>x. if x = 60 then ''60.0'' else ''0.0'') [Device ''Lamp'' 60]))
     = [False, False] \<and>
   save_state (\<lambda>x. if x = 60 then ''60.0'' else ''0.0'') [Device ''Lamp'' 60]
     (Some (''[2024-01-01 10:00:00] Lamp turned ON'' @ [NL] @
        ''[2024-01-01 11:00:00] Lamp turned OFF'' @ [NL]))
     = ''## DEVICES ##'' @ [NL] @ ''Lamp (60.0W) | 0.0'' @ [NL] @ [NL] @ ''## LOGS ##'' @ [NL] \<and>
   log_block (save_state (\<lambda>x. if x = 60 then ''60.0'' else ''0.0'') [Device ''Lamp'' 60]
     (Some (''[2024-01-01 10:00:00] Lamp turned ON'' @ [NL] @
        ''[2024-01-01 11:00:00] Lamp turned OFF'' @ [NL]))) = []"
  using save_state_without_marker [of "''[2024-01-01 10:00:00] Lamp turned ON'' @ [NL] @
        ''[2024-01-01 11:00:00] Lamp turned OFF'' @ [NL]"
      "\<lambda>x. if x = 60 then ''60.0'' else ''0.0''" "[Device ''Lamp'' 60]"]
  by (simp add: is_logs_marker_def strip_def is_space_def LOGS_MARKER_def DEVICES_MARKER_def
      summary_block_def device_line_def Device_def save_state_def log_block_def)

subsection \<open>Writing and re-reading the summary block\<close>

text \<open>A device whose name holds none of the separators comes back as it was written
  (here \<^verbatim>\<open>repr\<close> and \<^verbatim>\<open>float()\<close> are given on the two numbers involved).\<close>

lemma load_save_plain_name:
  "load_state (\<lambda>s. if s = ''60.0'' then Some 60 else if s = ''0.0'' then Some 0 else None)
     (Some (save_state (\<lambda>x. if x = 60 then ''60.0'' else ''0.0'') [Device ''Lamp'' 60] None))
   = [Device ''Lamp'' 60]"
  by (simp add: save_state_def summary_block_def strip_def is_space_def LOGS_MARKER_def
      DEVICES_MARKER_def device_line_def Device_def load_state_def parse_device_line_def
      split_str_def load_device_def)

text \<open>
  C3 fails on the code. \<^verbatim>\<open>add_device\<close> accepts the name \<^verbatim>\<open>Fan (small)\<close>;
  \<^verbatim>\<open>save_state\<close> writes the line \<^verbatim>\<open>Fan (small) (60.0W) | 0.0\<close>; in \<^verbatim>\<open>load_state\<close>
  \<^verbatim>\<open>info_part.split(" (")\<close> then has three parts, the unpacking raises, and the line is
  dropped: nothing is read back, whatever \<^verbatim>\<open>float()\<close> does.
\<close>

theorem load_save_loses_device:
  "save_state (\<lambda>x. if x = 60 then ''60.0'' else ''0.0'') [Device ''Fan (small)'' 60] None
     = ''## DEVICES ##'' @ [NL] @ ''Fan (small) (60.0W) | 0.0'' @ [NL] @ [NL] @
       ''## LOGS ##'' @ [NL] \<and>
   load_state pfloat
     (Some (save_state (\<lambda>x. if x = 60 then ''60.0'' else ''0.0'') [Device ''Fan (small)'' 60] None))
     = []"
  by (simp add: save_state_def summary_block_def strip_def is_space_def LOGS_MARKER_def
      DEVICES_MARKER_def device_line_def Device_def load_state_def parse_device_line_def
      split_str_def)

section \<open>Daily aggregator: theorems\<close>

subsection \<open>Which keys the usage dictionary holds\<close>

lemma keys_update: "fst ` set (AList.update k v al) = insert k (fst ` set al)"
  by (simp add: AList.dom_update)

lemma keys_delete: "fst ` set (AList.delete k al) \<subseteq> fst ` set al"
  by (auto simp: AList.delete_eq)

lemma device_power_map_keys_gen:
  "fst ` set (fold (\<lambda>d m. AList.update (name d) (power_w d) m) devices m0) =
     name ` set devices \<union> fst ` set m0"
  by (induction devices arbitrary: m0) (auto simp: keys_update)

lemma device_power_map_keys: "fst ` set (device_power_map devices) = name ` set devices"
  by (simp add: device_power_map_def device_power_map_keys_gen)

lemma map_of_device_power_map_None:
  "(map_of (device_power_map devices) n = None) = (n \<notin> name ` set devices)"
  by (simp add: map_of_eq_None_iff device_power_map_keys)

lemma subset_chain: "A \<subseteq> P \<union> B \<Longrightarrow> B \<subseteq> P \<union> C \<Longrightarrow> A \<subseteq> P \<union> (C::'a set)"
  by blast

lemma subset_chain_insert: "A \<subseteq> Q \<union> B \<Longrightarrow> B \<subseteq> insert x C \<Longrightarrow> A \<subseteq> insert x Q \<union> (C::'a set)"
  by blast

lemma attribute_days_keys:
  "attribute_days dn s e cur u = Inr u' \<Longrightarrow> snd ` fst ` set u' \<subseteq> insert dn (snd ` fst ` set u)"
proof (induction dn s e cur u rule: attribute_days.induct)
  case (1 dn s e cur u)
  show ?case
  proof (cases "cur \<le> date_of e")
    case False
    with "1.prems" show ?thesis by (auto simp: attribute_days.simps [of dn s e cur u])
  next
    case True
    let ?duration = "total_seconds (min e (combine cur time_max) - max s (combine cur time_min))"
    let ?u = "if ?duration > 0
        then AList.update (cur, dn)
               ((case map_of u (cur, dn) of None \<Rightarrow> 0 | Some v \<Rightarrow> v) + ?duration) u
        else u"
    from True "1.prems" have ok: "0 < cur + 1 \<and> cur + 1 \<le> MAXORDINAL"
      and rec: "attribute_days dn s e (cur + 1) ?u = Inr u'"
      by (auto simp: attribute_days.simps [of dn s e cur u] Let_def split: if_splits)
    from True ok rec have "snd ` fst ` set u' \<subseteq> insert dn (snd ` fst ` set ?u)"
      by (intro "1.IH") (auto simp: Let_def)
    moreover have "snd ` fst ` set ?u \<subseteq> insert dn (snd ` fst ` set u)"
      by (auto simp: keys_update)
    ultimately show ?thesis by blast
  qed
qed

lemma attribute_days_distinct:
  "attribute_days dn s e cur u = Inr u' \<Longrightarrow> distinct (map fst u) \<Longrightarrow> distinct (map fst u')"
proof (induction dn s e cur u rule: attribute_days.induct)
  case (1 dn s e cur u)
  show ?case
  proof (cases "cur \<le> date_of e")
    case False
    with "1.prems" show ?thesis by (simp add: attribute_days.simps [of dn s e cur u])
  next
    case True
    let ?duration = "total_seconds (min e (combine cur time_max) - max s (combine cur time_min))"
    let ?u = "if ?duration > 0
        then AList.update (cur, dn)
               ((case map_of u (cur, dn) of None \<Rightarrow> 0 | Some v \<Rightarrow> v) + ?duration) u
        else u"
    from True "1.prems" have ok: "0 < cur + 1 \<and> cur + 1 \<le> MAXORDINAL"
      and rec: "attribute_days dn s e (cur + 1) ?u = Inr u'"
      by (auto simp: attribute_days.simps [of dn s e cur u] Let_def split: if_splits)
    have "distinct (map fst ?u)"
      using "1.prems"(2) by (simp add: AList.distinct_update)
    with True ok rec show ?thesis
      by (intro "1.IH") (auto simp: Let_def)
  qed
qed

lemma replay_step_cases:
  assumes "replay_step pm entry (os, u) = Inr (os', u')"
  shows "u' = u \<or>
    (log_device entry \<in> fst ` set pm \<and>
     (\<exists>t. attribute_days (log_device entry) t (log_timestamp entry) (date_of t) u = Inr u'))"
proof (cases "map_of pm (log_device entry)")
  case None
  with assms show ?thesis by (simp add: replay_step_def Let_def)
next
  case known: (Some pw)
  then have key: "log_device entry \<in> fst ` set pm"
    by (metis map_of_eq_None_iff option.distinct(1))
  show ?thesis
  proof (cases "log_status entry = ''ON''")
    case True
    with known assms show ?thesis by (simp add: replay_step_def Let_def)
  next
    case not_on: False
    show ?thesis
    proof (cases "log_status entry = ''OFF''")
      case False
      with known not_on assms show ?thesis by (simp add: replay_step_def Let_def)
    next
      case off: True
      show ?thesis
      proof (cases "map_of os (log_device entry)")
        case None
        with known off assms show ?thesis by (simp add: replay_step_def Let_def)
      next
        case (Some t)
        with known off assms
        have "attribute_days (log_device entry) t (log_timestamp entry) (date_of t) u = Inr u'"
          by (simp add: replay_step_def Let_def split: sum.splits)
        with key show ?thesis by blast
      qed
    qed
  qed
qed

lemma replay_step_keys:
  assumes "replay_step pm entry (os, u) = Inr (os', u')"
  shows "snd ` fst ` set u' \<subseteq> fst ` set pm \<union> snd ` fst ` set u"
  using replay_step_cases [OF assms]
proof
  assume "u' = u"
  then show ?thesis by simp
next
  assume "log_device entry \<in> fst ` set pm \<and>
     (\<exists>t. attribute_days (log_device entry) t (log_timestamp entry) (date_of t) u = Inr u')"
  then obtain t where key: "log_device entry \<in> fst ` set pm"
    and a: "attribute_days (log_device entry) t (log_timestamp entry) (date_of t) u = Inr u'"
    by blast
  from key have "insert (log_device entry) (snd ` fst ` set u) \<subseteq> fst ` set pm \<union> snd ` fst ` set u"
    by simp
  with attribute_days_keys [OF a] show ?thesis by (rule order_trans)
qed

lemma replay_step_distinct:
  assumes "replay_step pm entry (os, u) = Inr (os', u')" and "distinct (map fst u)"
  shows "distinct (map fst u')"
  using replay_step_cases [OF assms(1)]
proof
  assume "u' = u"
  with assms(2) show ?thesis by simp
next
  assume "log_device entry \<in> fst ` set pm \<and>
     (\<exists>t. attribute_days (log_device entry) t (log_timestamp entry) (date_of t) u = Inr u')"
  then obtain t where
    "attribute_days (log_device entry) t (log_timestamp entry) (date_of t) u = Inr u'"
    by blast
  then show ?thesis using assms(2) by (rule attribute_days_distinct)
qed

lemma replay_logs_keys:
  "replay_logs pm entries st = Inr st' \<Longrightarrow>
     snd ` fst ` set (snd st') \<subseteq> fst ` set pm \<union> snd ` fst ` set (snd st)"
proof (induction entries arbitrary: st)
  case Nil
  then show ?case by auto
next
  case (Cons entry rest)
  from Cons.prems obtain st1 where step: "replay_step pm entry st = Inr st1"
    and rest: "replay_logs pm rest st1 = Inr st'"
    by (auto split: sum.splits)
  from step have "snd ` fst ` set (snd st1) \<subseteq> fst ` set pm \<union> snd ` fst ` set (snd st)"
    using replay_step_keys [of pm entry "fst st" "snd st" "fst st1" "snd st1"] by simp
  with Cons.IH [OF rest] show ?case by (rule subset_chain)
qed

lemma replay_logs_distinct:
  "replay_logs pm entries st = Inr st' \<Longrightarrow> distinct (map fst (snd st)) \<Longrightarrow>
     distinct (map fst (snd st'))"
proof (induction entries arbitrary: st)
  case Nil
  then show ?case by auto
next
  case (Cons entry rest)
  from Cons.prems obtain st1 where step: "replay_step pm entry st = Inr st1"
    and rest: "replay_logs pm rest st1 = Inr st'"
    by (auto split: sum.splits)
  from step Cons.prems(2) have "distinct (map fst (snd st1))"
    using replay_step_distinct [of pm entry "fst st" "snd st" "fst st1" "snd st1"] by simp
  with rest show ?case by (rule Cons.IH)
qed

lemma live_sessions_keys:
  "live_sessions now devices u = Inr u' \<Longrightarrow>
     snd ` fst ` set u' \<subseteq> name ` set devices \<union> snd ` fst ` set u"
proof (induction devices arbitrary: u)
  case Nil
  then show ?case by auto
next
  case (Cons d ds)
  show ?case
  proof (cases "is_on d \<and> last_on_time d \<noteq> None")
    case False
    with Cons.prems have "live_sessions now ds u = Inr u'"
      by (auto split: option.splits)
    from Cons.IH [OF this] have "snd ` fst ` set u' \<subseteq> name ` set ds \<union> snd ` fst ` set u" .
    then show ?thesis by (simp add: subset_insertI2)
  next
    case True
    then obtain t where t: "last_on_time d = Some t" and on: "is_on d" by auto
    with Cons.prems obtain u1 where a: "attribute_days (name d) t now (date_of t) u = Inr u1"
      and r: "live_sessions now ds u1 = Inr u'"
      by (auto split: sum.splits)
    from Cons.IH [OF r] attribute_days_keys [OF a]
    have "snd ` fst ` set u' \<subseteq> insert (name d) (name ` set ds) \<union> snd ` fst ` set u"
      by (rule subset_chain_insert)
    then show ?thesis by simp
  qed
qed

lemma live_sessions_distinct:
  "live_sessions now devices u = Inr u' \<Longrightarrow> distinct (map fst u) \<Longrightarrow> distinct (map fst u')"
proof (induction devices arbitrary: u)
  case Nil
  then show ?case by auto
next
  case (Cons d ds)
  show ?case
  proof (cases "is_on d \<and> last_on_time d \<noteq> None")
    case False
    with Cons.prems have "live_sessions now ds u = Inr u'"
      by (auto split: option.splits)
    from Cons.IH [OF this Cons.prems(2)] show ?thesis .
  next
    case True
    then obtain t where t: "last_on_time d = Some t" and on: "is_on d" by auto
    with Cons.prems obtain u1 where a: "attribute_days (name d) t now (date_of t) u = Inr u1"
      and r: "live_sessions now ds u1 = Inr u'"
      by (auto split: sum.splits)
    from attribute_days_distinct [OF a Cons.prems(2)] Cons.IH [OF r] show ?thesis by auto
  qed
qed

lemma daily_usage_keys:
  assumes "daily_usage now devices processed_logs = Inr usage"
  shows "snd ` fst ` set usage \<subseteq> name ` set devices"
proof -
  from assms obtain st where
    rp: "replay_logs (device_power_map devices) (sort_key log_timestamp processed_logs) ([], []) = Inr st"
    and lv: "live_sessions now devices (snd st) = Inr usage"
    by (auto simp: daily_usage_def split: sum.splits)
  from replay_logs_keys [OF rp] have "snd ` fst ` set (snd st) \<subseteq> name ` set devices"
    by (simp add: device_power_map_keys)
  with live_sessions_keys [OF lv] show ?thesis by (simp add: subset_trans)
qed

lemma daily_usage_distinct:
  assumes "daily_usage now devices processed_logs = Inr usage"
  shows "distinct (map fst usage)"
proof -
  from assms obtain st where
    rp: "replay_logs (device_power_map devices) (sort_key log_timestamp processed_logs) ([], []) = Inr st"
    and lv: "live_sessions now devices (snd st) = Inr usage"
    by (auto simp: daily_usage_def split: sum.splits)
  from replay_logs_distinct [OF rp] have "distinct (map fst (snd st))" by simp
  with lv show ?thesis by (rule live_sessions_distinct)
qed

subsection \<open>When the aggregation returns\<close>

text \<open>The only exception the replay can raise is the OverflowError of the day loop on
  9999-12-31 and of the column dates in the first week of year 1; with all dates inside
  these bounds \<^verbatim>\<open>show_stats\<close> returns.\<close>

lemma attribute_days_returns:
  "0 \<le> cur \<Longrightarrow> date_of e < MAXORDINAL \<Longrightarrow> \<exists>u'. attribute_days dn s e cur u = Inr u'"
proof (induction dn s e cur u rule: attribute_days.induct)
  case (1 dn s e cur u)
  show ?case
  proof (cases "cur \<le> date_of e")
    case False
    then show ?thesis by (simp add: attribute_days.simps [of dn s e cur u])
  next
    case True
    let ?duration = "total_seconds (min e (combine cur time_max) - max s (combine cur time_min))"
    let ?u = "if ?duration > 0
        then AList.update (cur, dn)
               ((case map_of u (cur, dn) of None \<Rightarrow> 0 | Some v \<Rightarrow> v) + ?duration) u
        else u"
    from True "1.prems" have ok: "0 < cur + 1 \<and> cur + 1 \<le> MAXORDINAL" by simp
    with True "1.prems" have "\<exists>u'. attribute_days dn s e (cur + 1) ?u = Inr u'"
      by (intro "1.IH") (auto simp: Let_def)
    with True ok show ?thesis
      by (simp add: attribute_days.simps [of dn s e cur u] Let_def)
  qed
qed

lemma update_values: "(k', v') \<in> set (AList.update k v al) \<Longrightarrow> v' = v \<or> (k', v') \<in> set al"
  by (induction al) (auto split: if_splits)

lemma delete_subset: "set (AList.delete k al) \<subseteq> set al"
  by (auto simp: AList.delete_eq)

lemma replay_step_returns:
  assumes inv: "starts_ok os"
    and lo: "0 \<le> date_of (log_timestamp entry)"
    and hi: "date_of (log_timestamp entry) < MAXORDINAL"
  shows "\<exists>os' u'. replay_step pm entry (os, u) = Inr (os', u') \<and> starts_ok os'"
proof (cases "map_of pm (log_device entry)")
  case None
  with inv show ?thesis by (simp add: replay_step_def Let_def)
next
  case known: (Some pw)
  show ?thesis
  proof (cases "log_status entry = ''ON''")
    case True
    have "starts_ok (AList.update (log_device entry) (log_timestamp entry) os)"
      unfolding starts_ok_def
    proof
      fix p assume "p \<in> set (AList.update (log_device entry) (log_timestamp entry) os)"
      then have "snd p = log_timestamp entry \<or> p \<in> set os"
        using update_values [of "fst p" "snd p"] by simp
      with inv lo show "0 \<le> date_of (snd p)" by (auto simp: starts_ok_def)
    qed
    with known True show ?thesis by (simp add: replay_step_def Let_def)
  next
    case not_on: False
    show ?thesis
    proof (cases "log_status entry = ''OFF''")
      case False
      with known not_on inv show ?thesis by (simp add: replay_step_def Let_def)
    next
      case off: True
      show ?thesis
      proof (cases "map_of os (log_device entry)")
        case None
        with known off inv show ?thesis by (simp add: replay_step_def Let_def)
      next
        case (Some t)
        then have "(log_device entry, t) \<in> set os" by (rule map_of_SomeD)
        with inv have "0 \<le> date_of t" by (auto simp: starts_ok_def)
        from attribute_days_returns [OF this hi]
        obtain u' where u': "attribute_days (log_device entry) t (log_timestamp entry) (date_of t) u = Inr u'"
          by blast
        have "starts_ok (AList.delete (log_device entry) os)"
          using inv delete_subset [of "log_device entry" os] by (auto simp: starts_ok_def)
        with known off Some u' show ?thesis by (simp add: replay_step_def Let_def)
      qed
    qed
  qed
qed

lemma replay_logs_returns:
  "starts_ok (fst st) \<Longrightarrow>
   \<forall>entry \<in> set entries. 0 \<le> date_of (log_timestamp entry) \<and> date_of (log_timestamp entry) < MAXORDINAL \<Longrightarrow>
     \<exists>st'. replay_logs pm entries st = Inr st'"
proof (induction entries arbitrary: st)
  case Nil
  then show ?case by simp
next
  case (Cons entry rest)
  from Cons.prems have "0 \<le> date_of (log_timestamp entry)" "date_of (log_timestamp entry) < MAXORDINAL"
    by simp_all
  from replay_step_returns [OF Cons.prems(1) this, of pm "snd st"]
  obtain os' u' where step: "replay_step pm entry st = Inr (os', u')" and ok: "starts_ok os'"
    by auto
  from ok Cons.prems(2) have "\<exists>st'. replay_logs pm rest (os', u') = Inr st'"
    by (intro Cons.IH) simp_all
  with step show ?case by simp
qed

lemma live_sessions_returns:
  "\<forall>d \<in> set devices. \<forall>t. last_on_time d = Some t \<longrightarrow> 0 \<le> date_of t \<Longrightarrow>
   date_of now < MAXORDINAL \<Longrightarrow> \<exists>u'. live_sessions now devices u = Inr u'"
proof (induction devices arbitrary: u)
  case Nil
  then show ?case by simp
next
  case (Cons d ds)
  from Cons.prems have rest: "\<And>u1. \<exists>u'. live_sessions now ds u1 = Inr u'"
    by (intro Cons.IH) simp_all
  show ?case
  proof (cases "last_on_time d")
    case None
    with rest show ?thesis by simp
  next
    case (Some t)
    with Cons.prems have "0 \<le> date_of t" by simp
    from attribute_days_returns [OF this Cons.prems(2)]
    obtain u1 where "attribute_days (name d) t now (date_of t) u = Inr u1" by blast
    with Some rest show ?thesis by simp
  qed
qed

lemma parse_logs_timestamps:
  "entry \<in> set (parse_logs strptime started ls) \<Longrightarrow> \<exists>s. strptime s = Some (log_timestamp entry)"
proof (induction ls arbitrary: started)
  case Nil
  then show ?case by simp
next
  case (Cons line rest)
  show ?case
  proof (cases "entry \<in> set (parse_logs strptime True rest) \<or> entry \<in> set (parse_logs strptime started rest)")
    case True
    with Cons.IH show ?thesis by blast
  next
    case False
    with Cons.prems have "parse_log_line strptime (strip line) = Some entry"
      by (auto simp: Let_def split: if_splits option.splits)
    then show ?thesis
      by (auto simp: parse_log_line_def Let_def split: option.splits list.splits)
  qed
qed

lemma show_stats_returns:
  assumes sp: "\<forall>s t. strptime s = Some t \<longrightarrow> 0 \<le> date_of t \<and> date_of t < MAXORDINAL"
    and on: "\<forall>d \<in> set devices. \<forall>t. last_on_time d = Some t \<longrightarrow> 0 \<le> date_of t"
    and now: "date_of now < MAXORDINAL"
    and today: "6 < date_of now'"
  shows "\<exists>r. show_stats strptime now now' devices file = Inr r"
proof -
  let ?logs = "read_logs strptime file"
  have "\<forall>entry \<in> set (sort_key log_timestamp ?logs).
      0 \<le> date_of (log_timestamp entry) \<and> date_of (log_timestamp entry) < MAXORDINAL"
  proof
    fix entry assume "entry \<in> set (sort_key log_timestamp ?logs)"
    then have "entry \<in> set ?logs" by simp
    then have "\<exists>s. strptime s = Some (log_timestamp entry)"
      by (cases "file") (auto simp: read_logs_def dest: parse_logs_timestamps)
    with sp show "0 \<le> date_of (log_timestamp entry) \<and> date_of (log_timestamp entry) < MAXORDINAL"
      by blast
  qed
  moreover have "starts_ok (fst (([], []) :: (string \<times> datetime) list \<times> usage))"
    by (simp add: starts_ok_def)
  ultimately obtain st where
    "replay_logs (device_power_map devices) (sort_key log_timestamp ?logs) ([], []) = Inr st"
    using replay_logs_returns by blast
  moreover from on now obtain usage where "live_sessions now devices (snd st) = Inr usage"
    using live_sessions_returns by blast
  ultimately have "daily_usage now devices ?logs = Inr usage"
    by (simp add: daily_usage_def)
  with today show ?thesis
    by (simp add: show_stats_def stats_table_def Let_def)
qed

subsection \<open>The values of the table\<close>

lemma set_cell_same: "set_cell n day v df n day = v"
  by (simp add: set_cell_def)

lemma set_cell_other: "(day', n') \<noteq> (day, n) \<Longrightarrow> set_cell n' day' v df n day = df n day"
  by (auto simp: set_cell_def)

lemma fill_usage_other:
  assumes "fst item \<noteq> (day, n)"
  shows "fill_usage pm rows cols item df n day = df n day"
proof (cases "fst (fst item) \<in> set cols \<and> snd (fst item) \<in> set rows")
  case False
  then show ?thesis by (auto simp: fill_usage_def Let_def)
next
  case True
  from assms have "(fst (fst item), snd (fst item)) \<noteq> (day, n)" by simp
  then show ?thesis
    using True by (simp add: fill_usage_def Let_def set_cell_other del: prod.inject)
qed

lemma fold_fill_usage_other:
  "\<forall>item \<in> set items. fst item \<noteq> (day, n) \<Longrightarrow>
     fold (fill_usage pm rows cols) items df n day = df n day"
proof (induction items arbitrary: df)
  case Nil
  then show ?case by simp
next
  case (Cons item items)
  then have "fold (fill_usage pm rows cols) items (fill_usage pm rows cols item df) n day =
      fill_usage pm rows cols item df n day"
    by simp
  moreover from Cons.prems have "fill_usage pm rows cols item df n day = df n day"
    by (simp add: fill_usage_other)
  ultimately show ?case by simp
qed

lemma fold_fill_usage_hit:
  "distinct (map fst items) \<Longrightarrow> map_of items (day, n) = Some seconds \<Longrightarrow>
   day \<in> set cols \<Longrightarrow> n \<in> set rows \<Longrightarrow>
     fold (fill_usage pm rows cols) items df n day =
       kwh (case map_of pm n of None \<Rightarrow> 0 | Some pw \<Rightarrow> pw) seconds"
proof (induction items arbitrary: df)
  case Nil
  then show ?case by simp
next
  case (Cons item items)
  show ?case
  proof (cases "fst item = (day, n)")
    case True
    with Cons.prems have sec: "snd item = seconds" by (cases item) simp
    from True Cons.prems have "(day, n) \<notin> fst ` set items" by (cases item) simp
    then have "\<forall>i \<in> set items. fst i \<noteq> (day, n)" by (metis imageI)
    then have "fold (fill_usage pm rows cols) items (fill_usage pm rows cols item df) n day =
        fill_usage pm rows cols item df n day"
      by (rule fold_fill_usage_other)
    moreover from True sec Cons.prems have "fill_usage pm rows cols item df n day =
        kwh (case map_of pm n of None \<Rightarrow> 0 | Some pw \<Rightarrow> pw) seconds"
      by (cases item) (simp add: fill_usage_def set_cell_def if_distribR)
    ultimately show ?thesis by simp
  next
    case False
    with Cons.prems have "map_of items (day, n) = Some seconds" by (cases item) auto
    with Cons.prems show ?thesis by (simp add: Cons.IH)
  qed
qed

lemma fold_fill_today_other:
  "day \<noteq> today \<Longrightarrow> fold (fill_today rows cols today) devices df n day = df n day"
  by (induction devices arbitrary: df) (simp_all add: fill_today_def set_cell_def if_distribR)

lemma fold_fill_today_hit:
  "n \<in> name ` set devices \<Longrightarrow> n \<in> set rows \<Longrightarrow> today \<in> set cols \<Longrightarrow>
     \<exists>d \<in> set devices. name d = n \<and>
       fold (fill_today rows cols today) devices df n today = get_total_units d"
proof (induction devices rule: rev_induct)
  case Nil
  then show ?case by simp
next
  case (snoc d ds)
  have step: "fold (fill_today rows cols today) (ds @ [d]) df n today =
      fill_today rows cols today d (fold (fill_today rows cols today) ds df) n today"
    by simp
  show ?case
  proof (cases "name d = n")
    case True
    with snoc.prems have "fill_today rows cols today d (fold (fill_today rows cols today) ds df) n today
        = get_total_units d"
      by (simp add: fill_today_def set_cell_def)
    with step True show ?thesis by auto
  next
    case False
    with snoc.prems have "n \<in> name ` set ds" by auto
    from snoc.IH [OF this snoc.prems(2,3)] obtain d' where d': "d' \<in> set ds" "name d' = n"
      "fold (fill_today rows cols today) ds df n today = get_total_units d'"
      by blast
    from False have "fill_today rows cols today d (fold (fill_today rows cols today) ds df) n today
        = fold (fill_today rows cols today) ds df n today"
      by (simp add: fill_today_def set_cell_def if_distribR)
    with step d' have "fold (fill_today rows cols today) (ds @ [d]) df n today = get_total_units d'"
      by simp
    with d' show ?thesis by auto
  qed
qed

lemma all_device_names_eq:
  assumes "snd ` fst ` set usage \<subseteq> name ` set devices"
  shows "sort (remdups (map name devices @ map (\<lambda>item. snd (fst item)) usage)) =
     sort (remdups (map name devices))"
proof -
  have "set (map name devices @ map (\<lambda>item. snd (fst item)) usage) =
      name ` set devices \<union> snd ` fst ` set usage"
    by (simp add: image_image)
  with assms have "set (map name devices @ map (\<lambda>item. snd (fst item)) usage) =
      set (map name devices)"
    by auto
  then show ?thesis
    by (metis sorted_list_of_set_sort_remdups)
qed

lemma daily_usage_no_devices:
  assumes "daily_usage now [] processed_logs = Inr usage"
  shows "usage = []"
  using daily_usage_keys [OF assms] by simp


lemma stats_table_None:
  assumes "daily_usage now [] processed_logs = Inr usage"
  shows "stats_table now now' [] processed_logs = Inr None"
  using assms daily_usage_no_devices [OF assms] by (simp add: stats_table_def)

lemma stats_table_Some:
  assumes du: "daily_usage now devices processed_logs = Inr usage"
    and dev: "devices \<noteq> []"
    and res: "stats_table now now' devices processed_logs = Inr r"
  shows "r = Some \<lparr>df_index = sort (remdups (map name devices)),
      df_columns = map (\<lambda>i. date_of now' - i) [6, 5, 4, 3, 2, 1, 0],
      df_values =
        fold (fill_today (sort (remdups (map name devices)))
                (map (\<lambda>i. date_of now' - i) [6, 5, 4, 3, 2, 1, 0]) (date_of now')) devices
          (fold (fill_usage (device_power_map devices) (sort (remdups (map name devices)))
                   (map (\<lambda>i. date_of now' - i) [6, 5, 4, 3, 2, 1, 0])) usage
             (\<lambda>device_name day. 0))\<rparr>"
proof -
  have rows: "sort (remdups (map name devices @ map (\<lambda>item. snd (fst item)) usage)) =
      sort (remdups (map name devices))"
    using daily_usage_keys [OF du] by (rule all_device_names_eq)
  show ?thesis
  proof (cases "date_of now' - 6 \<le> 0")
    case True
    with du dev res show ?thesis by (simp add: stats_table_def)
  next
    case False
    with du dev res show ?thesis
      by (simp add: stats_table_def Let_def rows)
  qed
qed

text \<open>
  C5 as stated fails: the replay skips every log entry of a device that is not in the
  current device list (\<^verbatim>\<open>if device_name not in device_power_map: continue\<close>), so such
  a device gets no row; and today's column holds the live total of a device, which is
  not zero for a device with saved units and no usage. Here the log block holds two
  entries of \<^verbatim>\<open>Fan\<close>, the device list holds \<^verbatim>\<open>Lamp\<close> (2.5 units saved) only.
\<close>

theorem stats_table_rows_counterexample:
  "map log_device
     (read_logs
        (\<lambda>s. if s = ''2024-01-02 10:00:00'' then Some (mk_datetime 2024 1 2 10 0 0)
             else if s = ''2024-01-02 11:00:00'' then Some (mk_datetime 2024 1 2 11 0 0)
             else None)
        (Some (''## DEVICES ##'' @ [NL] @ ''Lamp (60.0W) | 2.5'' @ [NL] @ [NL] @
               ''## LOGS ##'' @ [NL] @
               ''[2024-01-02 10:00:00] Fan turned ON'' @ [NL] @
               ''[2024-01-02 11:00:00] Fan turned OFF (Removed)'' @ [NL])))
     = [''Fan'', ''Fan''] \<and>
   map_sum id (map_option (\<lambda>tbl. (df_index tbl, df_values tbl ''Lamp'' (ymd2ord 2024 1 3))))
     (show_stats
        (\<lambda>s. if s = ''2024-01-02 10:00:00'' then Some (mk_datetime 2024 1 2 10 0 0)
             else if s = ''2024-01-02 11:00:00'' then Some (mk_datetime 2024 1 2 11 0 0)
             else None)
        (mk_datetime 2024 1 3 12 0 0) (mk_datetime 2024 1 3 12 0 0)
        [load_device ''Lamp'' 60 (5 / 2)]
        (Some (''## DEVICES ##'' @ [NL] @ ''Lamp (60.0W) | 2.5'' @ [NL] @ [NL] @
               ''## LOGS ##'' @ [NL] @
               ''[2024-01-02 10:00:00] Fan turned ON'' @ [NL] @
               ''[2024-01-02 11:00:00] Fan turned OFF (Removed)'' @ [NL])))
     = Inr (Some ([''Lamp''], 5 / 2)) \<and>
   daily_usage (mk_datetime 2024 1 3 12 0 0) [load_device ''Lamp'' 60 (5 / 2)]
     [\<lparr>log_timestamp = mk_datetime 2024 1 2 10 0 0, log_device = ''Fan'', log_status = ''ON''\<rparr>,
      \<lparr>log_timestamp = mk_datetime 2024 1 2 11 0 0, log_device = ''Fan'', log_status = ''OFF''\<rparr>]
     = Inr []"
  by (simp add: show_stats_def read_logs_def parse_log_line_def strip_def is_space_def
      split_str_def LOGS_MARKER_def stats_table_def daily_usage_def device_power_map_def
      load_device_def Device_def replay_step_def Let_def mk_datetime_def combine_def ymd2ord_def
      days_before_year_def days_before_month_def is_leap_def us_per_day_def date_of_def
      fill_usage_def fill_today_def set_cell_def get_total_units_def get_session_units_def)

text \<open>
  C5, amended. When \<^verbatim>\<open>show_stats\<close> builds a table (it shows a label instead exactly
  when there is no device), the table has one row for every device of the current device
  list (sorted, without duplicates; a device seen only in the log block has none), one
  column per calendar day for the last 7 days, oldest to newest, and for every day but
  today the value of a (device, day) pair is 0 when no usage was attributed to it and
  the energy of the attributed seconds otherwise; today's column holds the live
  \<^verbatim>\<open>get_total_units\<close> of a current device of that name.
\<close>

theorem show_stats_table:
  assumes "show_stats strptime now now' devices file = Inr r"
  shows "\<exists>usage. daily_usage now devices (read_logs strptime file) = Inr usage \<and>
     ((r = None) = (devices = [])) \<and>
     (\<forall>tbl. r = Some tbl \<longrightarrow>
        df_index tbl = sort (remdups (map name devices)) \<and>
        df_columns tbl = map (\<lambda>i. date_of now' - i) [6, 5, 4, 3, 2, 1, 0] \<and>
        (\<forall>n \<in> set (df_index tbl). \<forall>day \<in> set (df_columns tbl). day \<noteq> date_of now' \<longrightarrow>
           df_values tbl n day =
             (case map_of usage (day, n) of
                None \<Rightarrow> 0
              | Some seconds \<Rightarrow>
                  kwh (case map_of (device_power_map devices) n of None \<Rightarrow> 0 | Some pw \<Rightarrow> pw)
                    seconds)) \<and>
        (\<forall>n \<in> set (df_index tbl). \<exists>d \<in> set devices.
           name d = n \<and> df_values tbl n (date_of now') = get_total_units d))"
proof -
  let ?logs = "read_logs strptime file"
  let ?rows = "sort (remdups (map name devices))"
  let ?cols = "map (\<lambda>i. date_of now' - i) [6, 5, 4, 3, 2, 1, 0]"
  let ?pm = "device_power_map devices"
  from assms have res: "stats_table now now' devices ?logs = Inr r"
    by (simp add: show_stats_def)
  then obtain usage where du: "daily_usage now devices ?logs = Inr usage"
    by (cases "daily_usage now devices ?logs") (simp_all add: stats_table_def)
  show ?thesis
  proof (cases "devices = []")
    case True
    with du res have "r = None" by (simp add: stats_table_None)
    with du True show ?thesis by simp
  next
    case False
    let ?df = "fold (fill_usage ?pm ?rows ?cols) usage (\<lambda>device_name day. 0)"
    let ?df' = "fold (fill_today ?rows ?cols (date_of now')) devices ?df"
    from stats_table_Some [OF du False res]
    have r: "r = Some \<lparr>df_index = ?rows, df_columns = ?cols, df_values = ?df'\<rparr>" .
    have other: "?df' n day =
        (case map_of usage (day, n) of
           None \<Rightarrow> 0
         | Some seconds \<Rightarrow> kwh (case map_of ?pm n of None \<Rightarrow> 0 | Some pw \<Rightarrow> pw) seconds)"
      if n: "n \<in> set ?rows" and day: "day \<in> set ?cols" and ne: "day \<noteq> date_of now'" for n day
    proof -
      from ne have eq: "?df' n day = ?df n day" by (rule fold_fill_today_other)
      show ?thesis
      proof (cases "map_of usage (day, n)")
        case None
        then have "\<forall>item \<in> set usage. fst item \<noteq> (day, n)"
          by (metis map_of_eq_None_iff imageI)
        then have "?df n day = 0" by (simp add: fold_fill_usage_other)
        with eq None show ?thesis by simp
      next
        case (Some seconds)
        from daily_usage_distinct [OF du] Some day n
        have "?df n day = kwh (case map_of ?pm n of None \<Rightarrow> 0 | Some pw \<Rightarrow> pw) seconds"
          by (rule fold_fill_usage_hit)
        with eq Some show ?thesis by simp
      qed
    qed
    have today: "\<exists>d \<in> set devices. name d = n \<and> ?df' n (date_of now') = get_total_units d"
      if n: "n \<in> set ?rows" for n
    proof -
      from n have "n \<in> name ` set devices" by simp
      moreover have "date_of now' \<in> set ?cols" by simp
      ultimately show ?thesis using n by (intro fold_fill_today_hit)
    qed
    from du False r other today show ?thesis by simp
  qed
qed

lemmas stats_eval = show_stats_def read_logs_def parse_log_line_def strip_def is_space_def
      split_str_def LOGS_MARKER_def stats_table_def daily_usage_def device_power_map_def
      load_device_def Device_def replay_step_def Let_def mk_datetime_def combine_def ymd2ord_def
      days_before_year_def days_before_month_def is_leap_def us_per_day_def date_of_def
      fill_usage_def fill_today_def set_cell_def get_total_units_def get_session_units_def
      attribute_days.simps time_min_def time_max_def total_seconds_def MAXORDINAL_def kwh_def

theorem show_stats_table_witness:
  "show_stats
        (\<lambda>s. if s = ''2024-01-02 10:00:00'' then Some (mk_datetime 2024 1 2 10 0 0)
             else if s = ''2024-01-02 11:00:00'' then Some (mk_datetime 2024 1 2 11 0 0)
             else None)
        (mk_datetime 2024 1 3 12 0 0) (mk_datetime 2024 1 3 12 0 0)
        [load_device ''Lamp'' 60 (5 / 2)]
        (Some (''## DEVICES ##'' @ [NL] @ ''Lamp (60.0W) | 2.5'' @ [NL] @ [NL] @
               ''## LOGS ##'' @ [NL] @
               ''[2024-01-02 10:00:00] Lamp turned ON'' @ [NL] @
               ''[2024-01-02 11:00:00] Lamp turned OFF'' @ [NL]))
     = Inr (projr (show_stats
        (\<lambda>s. if s = ''2024-01-02 10:00:00'' then Some (mk_datetime 2024 1 2 10 0 0)
             else if s = ''2024-01-02 11:00:00'' then Some (mk_datetime 2024 1 2 11 0 0)
             else None)
        (mk_datetime 2024 1 3 12 0 0) (mk_datetime 2024 1 3 12 0 0)
        [load_device ''Lamp'' 60 (5 / 2)]
        (Some (''## DEVICES ##'' @ [NL] @ ''Lamp (60.0W) | 2.5'' @ [NL] @ [NL] @
               ''## LOGS ##'' @ [NL] @
               ''[2024-01-02 10:00:00] Lamp turned ON'' @ [NL] @
               ''[2024-01-02 11:00:00] Lamp turned OFF'' @ [NL])))) \<and>
   map_sum id (map_option (\<lambda>tbl. (df_index tbl, df_columns tbl,
        df_values tbl ''Lamp'' (ymd2ord 2024 1 1), df_values tbl ''Lamp'' (ymd2ord 2024 1 2),
        df_values tbl ''Lamp'' (ymd2ord 2024 1 3))))
     (show_stats
        (\<lambda>s. if s = ''2024-01-02 10:00:00'' then Some (mk_datetime 2024 1 2 10 0 0)
             else if s = ''2024-01-02 11:00:00'' then Some (mk_datetime 2024 1 2 11 0 0)
             else None)
        (mk_datetime 2024 1 3 12 0 0) (mk_datetime 2024 1 3 12 0 0)
        [load_device ''Lamp'' 60 (5 / 2)]
        (Some (''## DEVICES ##'' @ [NL] @ ''Lamp (60.0W) | 2.5'' @ [NL] @ [NL] @
               ''## LOGS ##'' @ [NL] @
               ''[2024-01-02 10:00:00] Lamp turned ON'' @ [NL] @
               ''[2024-01-02 11:00:00] Lamp turned OFF'' @ [NL])))
     = Inr (Some ([''Lamp''],
          [ymd2ord 2023 12 28, ymd2ord 2023 12 29, ymd2ord 2023 12 30, ymd2ord 2023 12 31,
           ymd2ord 2024 1 1, ymd2ord 2024 1 2, ymd2ord 2024 1 3],
          0, 60 * 3600 / 3600000, 5 / 2)) \<and>
   (\<exists>usage. daily_usage (mk_datetime 2024 1 3 12 0 0) [load_device ''Lamp'' 60 (5 / 2)]
      (read_logs
        (\<lambda>s. if s = ''2024-01-02 10:00:00'' then Some (mk_datetime 2024 1 2 10 0 0)
             else if s = ''2024-01-02 11:00:00'' then Some (mk_datetime 2024 1 2 11 0 0)
             else None)
        (Some (''## DEVICES ##'' @ [NL] @ ''Lamp (60.0W) | 2.5'' @ [NL] @ [NL] @
               ''## LOGS ##'' @ [NL] @
               ''[2024-01-02 10:00:00] Lamp turned ON'' @ [NL] @
               ''[2024-01-02 11:00:00] Lamp turned OFF'' @ [NL]))) = Inr usage)"
proof -
  let ?sp = "\<lambda>s. if s = ''2024-01-02 10:00:00'' then Some (mk_datetime 2024 1 2 10 0 0)
             else if s = ''2024-01-02 11:00:00'' then Some (mk_datetime 2024 1 2 11 0 0)
             else None"
  let ?file = "Some (''## DEVICES ##'' @ [NL] @ ''Lamp (60.0W) | 2.5'' @ [NL] @ [NL] @
               ''## LOGS ##'' @ [NL] @
               ''[2024-01-02 10:00:00] Lamp turned ON'' @ [NL] @
               ''[2024-01-02 11:00:00] Lamp turned OFF'' @ [NL])"
  let ?res = "show_stats ?sp (mk_datetime 2024 1 3 12 0 0) (mk_datetime 2024 1 3 12 0 0)
        [load_device ''Lamp'' 60 (5 / 2)] ?file"
  have "\<not> isl ?res"
    by (simp add: stats_eval)
  then have hyp: "?res = Inr (projr ?res)" by simp
  have ev: "map_sum id (map_option (\<lambda>tbl. (df_index tbl, df_columns tbl,
        df_values tbl ''Lamp'' (ymd2ord 2024 1 1), df_values tbl ''Lamp'' (ymd2ord 2024 1 2),
        df_values tbl ''Lamp'' (ymd2ord 2024 1 3)))) ?res
     = Inr (Some ([''Lamp''],
          [ymd2ord 2023 12 28, ymd2ord 2023 12 29, ymd2ord 2023 12 30, ymd2ord 2023 12 31,
           ymd2ord 2024 1 1, ymd2ord 2024 1 2, ymd2ord 2024 1 3],
          0, 60 * 3600 / 3600000, 5 / 2))"
    by (simp add: stats_eval)
  from show_stats_table [OF hyp]
  have "\<exists>usage. daily_usage (mk_datetime 2024 1 3 12 0 0) [load_device ''Lamp'' 60 (5 / 2)]
      (read_logs ?sp ?file) = Inr usage"
    by (elim exE conjE) (rule exI)
  with hyp ev show ?thesis by (intro conjI)
qed

subsection \<open>Sessions across midnight, unmatched events\<close>

text \<open>
  C1 fails on the code. For a 100 W device switched on at 2024-01-01 23:00:00 and off at
  2024-01-02 01:00:00 the loop clips the first day at \<^verbatim>\<open>time.max\<close>, 23:59:59.999999,
  so 3599.999999 seconds (one microsecond short of the hour) go to 2024-01-01, which
  is 3599999999/36000000000 units and not 0.1; the second day gets 3600 seconds, 0.1
  units. The table is built on 2024-01-03, so neither day is today's column.
\<close>

theorem midnight_split_loses_microsecond:
  "daily_usage (mk_datetime 2024 1 3 12 0 0) [Device ''Heater'' 100]
     [\<lparr>log_timestamp = mk_datetime 2024 1 1 23 0 0, log_device = ''Heater'', log_status = ''ON''\<rparr>,
      \<lparr>log_timestamp = mk_datetime 2024 1 2 1 0 0, log_device = ''Heater'', log_status = ''OFF''\<rparr>]
     = Inr [((ymd2ord 2024 1 1, ''Heater''), 3599999999 / 1000000),
            ((ymd2ord 2024 1 2, ''Heater''), 3600)] \<and>
   map_sum id (map_option (\<lambda>tbl.
        (df_values tbl ''Heater'' (ymd2ord 2024 1 1), df_values tbl ''Heater'' (ymd2ord 2024 1 2))))
     (stats_table (mk_datetime 2024 1 3 12 0 0) (mk_datetime 2024 1 3 12 0 0)
        [Device ''Heater'' 100]
        [\<lparr>log_timestamp = mk_datetime 2024 1 1 23 0 0, log_device = ''Heater'', log_status = ''ON''\<rparr>,
         \<lparr>log_timestamp = mk_datetime 2024 1 2 1 0 0, log_device = ''Heater'', log_status = ''OFF''\<rparr>])
     = Inr (Some (3599999999 / 36000000000, 1 / 10)) \<and>
   (3599999999 / 36000000000 :: real) \<noteq> 1 / 10"
  by (simp add: stats_eval)

lemma replay_logs_append:
  "replay_logs pm (xs @ ys) st =
     (case replay_logs pm xs st of Inl e \<Rightarrow> Inl e | Inr st' \<Rightarrow> replay_logs pm ys st')"
  by (induction xs arbitrary: st) (simp_all split: sum.splits)

text \<open>
  C8. An OFF entry of a device that has no open session when the replay reaches it
  leaves the open sessions and the usage of every day as they are, and the step
  returns normally: the replay with the entry gives what the replay without it gives.
\<close>

theorem unmatched_off_ignored:
  assumes "log_status entry = ''OFF''"
    and "replay_logs pm before ([], []) = Inr (open_sessions, usage)"
    and "map_of open_sessions (log_device entry) = None"
  shows "replay_step pm entry (open_sessions, usage) = Inr (open_sessions, usage) \<and>
    replay_logs pm (before @ entry # rest) ([], []) = replay_logs pm (before @ rest) ([], [])"
proof -
  from assms(1,3) have step: "replay_step pm entry (open_sessions, usage) = Inr (open_sessions, usage)"
    by (simp add: replay_step_def Let_def)
  with assms(2) show ?thesis by (simp add: replay_logs_append)
qed

theorem unmatched_off_ignored_witness:
  "log_status \<lparr>log_timestamp = mk_datetime 2024 1 2 9 0 0, log_device = ''Heater'', log_status = ''OFF''\<rparr> = ''OFF'' \<and>
   replay_logs [(''Heater'', 100)]
     [\<lparr>log_timestamp = mk_datetime 2024 1 2 7 0 0, log_device = ''Heater'', log_status = ''ON''\<rparr>,
      \<lparr>log_timestamp = mk_datetime 2024 1 2 8 0 0, log_device = ''Heater'', log_status = ''OFF''\<rparr>]
     ([], [])
     = Inr ([], [((ymd2ord 2024 1 2, ''Heater''), 3600)]) \<and>
   map_of ([] :: (string \<times> datetime) list) ''Heater'' = None \<and>
   replay_logs [(''Heater'', 100)]
     [\<lparr>log_timestamp = mk_datetime 2024 1 2 7 0 0, log_device = ''Heater'', log_status = ''ON''\<rparr>,
      \<lparr>log_timestamp = mk_datetime 2024 1 2 8 0 0, log_device = ''Heater'', log_status = ''OFF''\<rparr>,
      \<lparr>log_timestamp = mk_datetime 2024 1 2 9 0 0, log_device = ''Heater'', log_status = ''OFF''\<rparr>]
     ([], [])
     = Inr ([], [((ymd2ord 2024 1 2, ''Heater''), 3600)])"
proof -
  have before: "replay_logs [(''Heater'', 100)]
     [\<lparr>log_timestamp = mk_datetime 2024 1 2 7 0 0, log_device = ''Heater'', log_status = ''ON''\<rparr>,
      \<lparr>log_timestamp = mk_datetime 2024 1 2 8 0 0, log_device = ''Heater'', log_status = ''OFF''\<rparr>]
     ([], [])
     = Inr ([], [((ymd2ord 2024 1 2, ''Heater''), 3600)])"
    by (simp add: stats_eval)
  from unmatched_off_ignored [OF _ before, of
      "\<lparr>log_timestamp = mk_datetime 2024 1 2 9 0 0, log_device = ''Heater'', log_status = ''OFF''\<rparr>" "[]"]
  have "replay_logs [(''Heater'', 100)]
     [\<lparr>log_timestamp = mk_datetime 2024 1 2 7 0 0, log_device = ''Heater'', log_status = ''ON''\<rparr>,
      \<lparr>log_timestamp = mk_datetime 2024 1 2 8 0 0, log_device = ''Heater'', log_status = ''OFF''\<rparr>,
      \<lparr>log_timestamp = mk_datetime 2024 1 2 9 0 0, log_device = ''Heater'', log_status = ''OFF''\<rparr>]
     ([], []) =
    replay_logs [(''Heater'', 100)]
     [\<lparr>log_timestamp = mk_datetime 2024 1 2 7 0 0, log_device = ''Heater'', log_status = ''ON''\<rparr>,
      \<lparr>log_timestamp = mk_datetime 2024 1 2 8 0 0, log_device = ''Heater'', log_status = ''OFF''\<rparr>]
     ([], [])"
    by simp
  with before show ?thesis by simp
qed

section \<open>Leaderboard: theorems\<close>

lemma fold_total_units:
  "fold (\<lambda>d acc. acc + get_total_units d) devices a = a + sum_list (map get_total_units devices)"
  by (induction devices arbitrary: a) simp_all

lemma current_user_total_usage_sum:
  "current_user_total_usage devices = sum_list (map get_total_units devices)"
  by (simp add: current_user_total_usage_def fold_total_units)

lemma scan_files_active:
  "(username, t) \<in> set (scan_files pfloat username current_total directory) \<Longrightarrow>
     t = current_total"
proof (induction directory)
  case Nil
  then show ?case by simp
next
  case (Cons f rest)
  obtain filename content where f: "f = (filename, content)" by (cases f)
  show ?case
  proof (cases "endswith filename ''_data.txt''")
    case False
    with Cons f show ?thesis by simp
  next
    case True
    show ?thesis
    proof (cases content)
      case None
      with True Cons f show ?thesis by simp
    next
      case (Some text_of_file)
      with True Cons f show ?thesis by (auto simp: Let_def split: if_splits)
    qed
  qed
qed

lemma scan_files_file:
  "e \<in> set (scan_files pfloat username current_total directory) \<Longrightarrow>
     \<exists>filename text_of_file. (filename, Some text_of_file) \<in> set directory \<and>
        endswith filename ''_data.txt'' \<and> fst e = replace_str ''_data.txt'' [] filename"
proof (induction directory)
  case Nil
  then show ?case by simp
next
  case (Cons f rest)
  obtain filename content where f: "f = (filename, content)" by (cases f)
  show ?case
  proof (cases "endswith filename ''_data.txt''")
    case False
    with Cons f show ?thesis by auto
  next
    case True
    show ?thesis
    proof (cases content)
      case None
      with True Cons f show ?thesis by auto
    next
      case (Some text_of_file)
      with True Cons f show ?thesis by (auto simp: Let_def)
    qed
  qed
qed

lemma leaderboard_entry_from_file:
  assumes "e \<in> set (show_leaderboard pfloat username devices directory)"
  shows "\<exists>filename text_of_file. (filename, Some text_of_file) \<in> set directory \<and>
     endswith filename ''_data.txt'' \<and> fst e = replace_str ''_data.txt'' [] filename"
proof -
  from assms have "e \<in> set (scan_files pfloat username (current_user_total_usage devices) directory)"
    by (simp add: show_leaderboard_def)
  then show ?thesis by (rule scan_files_file)
qed

lemmas lb_eval = show_leaderboard_def current_user_total_usage_def endswith_def strip_def is_space_def
  split_str_def DEVICES_MARKER_def LOGS_MARKER_def Let_def load_device_def Device_def
  get_total_units_def get_session_units_def

text \<open>
  What holds of the leaderboard for every directory: it is sorted ascending by total
  usage, so an entry with a strictly smaller total stands before every entry with a
  larger one, and every entry that carries the active user's name has the live sum of
  \<^verbatim>\<open>get_total_units\<close> over the devices in memory as its total.
\<close>

lemma leaderboard_sorted_live:
  "sorted (map snd (show_leaderboard pfloat username devices directory)) \<and>
   (\<forall>i j. i < length (show_leaderboard pfloat username devices directory) \<and>
      j < length (show_leaderboard pfloat username devices directory) \<and>
      snd (show_leaderboard pfloat username devices directory ! i)
        < snd (show_leaderboard pfloat username devices directory ! j) \<longrightarrow> i < j) \<and>
   (\<forall>e \<in> set (show_leaderboard pfloat username devices directory).
      fst e = username \<longrightarrow> snd e = sum_list (map get_total_units devices))"
proof -
  let ?lb = "show_leaderboard pfloat username devices directory"
  have sorted: "sorted (map snd ?lb)"
    by (simp add: show_leaderboard_def)
  have order: "i < j" if "i < length ?lb" "j < length ?lb" "snd (?lb ! i) < snd (?lb ! j)" for i j
  proof (rule ccontr)
    assume "\<not> i < j"
    then have "j \<le> i" by simp
    with sorted that(1) have "map snd ?lb ! j \<le> map snd ?lb ! i"
      by (simp add: sorted_iff_nth_mono)
    with that show False by simp
  qed
  have live: "snd e = sum_list (map get_total_units devices)"
    if "e \<in> set ?lb" "fst e = username" for e
  proof -
    from that have "(username, snd e) \<in> set ?lb"
      by (metis prod.collapse)
    then have "(username, snd e) \<in>
        set (scan_files pfloat username (current_user_total_usage devices) directory)"
      by (simp add: show_leaderboard_def)
    from scan_files_active [OF this] show ?thesis
      by (simp add: current_user_total_usage_sum)
  qed
  from sorted order live show ?thesis by blast
qed

text \<open>An instance: the file of the active user A says 9.0, the devices in memory 5.0;
  B and C have 2.0 each, and both precede A.\<close>

lemma leaderboard_sorted_live_example:
  "show_leaderboard
     (\<lambda>s. if s = ''9.0'' then Some 9 else if s = ''2.0'' then Some 2 else None) ''A''
     [load_device ''Lamp'' 60 5]
     [(''A_data.txt'', Some (''## DEVICES ##'' @ [NL] @ ''Lamp (60.0W) | 9.0'' @ [NL] @ [NL] @
         ''## LOGS ##'' @ [NL])),
      (''notes.txt'', Some ''hello''),
      (''B_data.txt'', Some (''## DEVICES ##'' @ [NL] @ ''Fan (40.0W) | 2.0'' @ [NL] @ [NL] @
         ''## LOGS ##'' @ [NL])),
      (''C_data.txt'', Some (''## DEVICES ##'' @ [NL] @ ''Tv (90.0W) | 2.0'' @ [NL] @ [NL] @
         ''## LOGS ##'' @ [NL] @ ''x | 9.0'' @ [NL]))]
     = [(''B'', 2), (''C'', 2), (''A'', 5)] \<and>
   sorted (map snd [(''B'', 2 :: real), (''C'', 2), (''A'', 5)]) \<and>
   sum_list (map get_total_units [load_device ''Lamp'' 60 5]) = 5"
  using leaderboard_sorted_live
    [of "\<lambda>s. if s = ''9.0'' then Some 9 else if s = ''2.0'' then Some 2 else None" "''A''"
      "[load_device ''Lamp'' 60 5]"
      "[(''A_data.txt'', Some (''## DEVICES ##'' @ [NL] @ ''Lamp (60.0W) | 9.0'' @ [NL] @ [NL] @
         ''## LOGS ##'' @ [NL])),
      (''notes.txt'', Some ''hello''),
      (''B_data.txt'', Some (''## DEVICES ##'' @ [NL] @ ''Fan (40.0W) | 2.0'' @ [NL] @ [NL] @
         ''## LOGS ##'' @ [NL])),
      (''C_data.txt'', Some (''## DEVICES ##'' @ [NL] @ ''Tv (90.0W) | 2.0'' @ [NL] @ [NL] @
         ''## LOGS ##'' @ [NL] @ ''x | 9.0'' @ [NL]))]"]
  by (simp add: lb_eval)

text \<open>
  C6 fails on the code. The ranking is ascending (lemma \<open>leaderboard_sorted_live\<close>),
  but the total of the active user is not always the live one. The user name of a file
  is \<^verbatim>\<open>filename.replace("_data.txt", "")\<close>, which removes every occurrence and not
  the suffix only. For the active user \<^verbatim>\<open>bob_data.txt\<close> the own data file is
  \<^verbatim>\<open>bob_data.txt_data.txt\<close>; the name derived from it is \<^verbatim>\<open>bob\<close>, the comparison
  with \<^verbatim>\<open>self.username\<close> fails, and the entry gets the total of the file. Here the
  file was saved with 2.5 units, and the device has been on for an hour at 1000 W
  since: the live total is 3.5, the leaderboard says 2.5, under the name \<^verbatim>\<open>bob\<close>.
\<close>

theorem leaderboard_stale_total_for_active_user:
  "data_file ''bob_data.txt'' = ''bob_data.txt_data.txt'' \<and>
   save_state (\<lambda>x. if x = 1000 then ''1000.0'' else ''2.5'')
       [load_device ''Heater'' 1000 (5 / 2)] None
     = ''## DEVICES ##'' @ [NL] @ ''Heater (1000.0W) | 2.5'' @ [NL] @ [NL] @
       ''## LOGS ##'' @ [NL] \<and>
   show_leaderboard (\<lambda>s. if s = ''2.5'' then Some (5 / 2) else None) ''bob_data.txt''
       [update_session_usage 3600000000 (toggle 0 (load_device ''Heater'' 1000 (5 / 2)))]
       [(data_file ''bob_data.txt'',
         Some (''## DEVICES ##'' @ [NL] @ ''Heater (1000.0W) | 2.5'' @ [NL] @ [NL] @
               ''## LOGS ##'' @ [NL]))]
     = [(''bob'', 5 / 2)] \<and>
   sum_list (map get_total_units
       [update_session_usage 3600000000 (toggle 0 (load_device ''Heater'' 1000 (5 / 2)))])
     = 7 / 2"
  by (simp add: lb_eval data_file_def save_state_def summary_block_def device_line_def
      toggle_def update_session_usage_def total_seconds_def)

text \<open>
  C10 fails on the code. The user name of a file is \<^verbatim>\<open>filename.replace("_data.txt", "")\<close>,
  which removes every occurrence, not the suffix only. With \<^verbatim>\<open>bob_data.txt_data.txt\<close>
  (the data file of a user called \<^verbatim>\<open>bob_data.txt\<close>) as the only file of the directory,
  the active user \<^verbatim>\<open>bob\<close>, who has no file \<^verbatim>\<open>bob_data.txt\<close>, is listed with the live
  total.
\<close>

theorem leaderboard_lists_user_without_file:
  "show_leaderboard pfloat ''bob'' [load_device ''Lamp'' 60 (3 / 2)]
     [(''bob_data.txt_data.txt'', Some [])] = [(''bob'', 3 / 2)] \<and>
   ''bob_data.txt'' \<notin> fst ` set [(''bob_data.txt_data.txt'', Some ([] :: string))]"
  by (simp add: lb_eval)

text \<open>The leaderboard's reader of the same summary line splits at \<^verbatim>\<open>" | "\<close> only, so it
  does read the line that \<^verbatim>\<open>load_state\<close> drops.\<close>

lemma leaderboard_reads_dropped_line:
  "file_total (\<lambda>s. if s = ''1.5'' then Some (3 / 2) else None) False
     (readlines (save_state (\<lambda>x. if x = 60 then ''60.0'' else ''1.5'')
        [load_device ''Fan (small)'' 60 (3 / 2)] None)) 0 = 3 / 2 \<and>
   load_state pfloat
     (Some (save_state (\<lambda>x. if x = 60 then ''60.0'' else ''1.5'')
        [load_device ''Fan (small)'' 60 (3 / 2)] None)) = []"
  by (simp add: save_state_def summary_block_def strip_def is_space_def LOGS_MARKER_def
      DEVICES_MARKER_def device_line_def Device_def load_device_def load_state_def
      parse_device_line_def split_str_def)

end
